theory Spec2Isabelle
  imports Main
begin

section \<open>Python values: errors, strings, slices\<close>

text \<open>
  The embedding follows \<^verbatim>\<open>src/src/run_static_analysis.py\<close>. Python strings are
  \<^typ>\<open>string\<close>, Python integers are \<^typ>\<open>int\<close>, and every exception the code can raise
  is a value of \<open>py_error\<close>: a function that may raise returns \<open>py_error + 'a\<close>.
\<close>

datatype py_error = ValueError | KeyError | IndexError | NameError

text \<open>\<^verbatim>\<open>s.startswith(p)\<close>\<close>

definition startswith :: "string \<Rightarrow> string \<Rightarrow> bool" where
  "startswith s p = (take (length p) s = p)"

text \<open>
  \<^verbatim>\<open>s.replace(p, "")\<close>: every non-overlapping occurrence of \<open>p\<close>, scanning from the left,
  is removed. With the empty pattern Python puts the empty replacement between all
  characters, which gives the string back.
\<close>

function remove_all :: "string \<Rightarrow> string \<Rightarrow> string" where
  "remove_all p [] = []"
| "remove_all p (c # cs) =
     (if p \<noteq> [] \<and> startswith (c # cs) p
      then remove_all p (drop (length p) (c # cs))
      else c # remove_all p cs)"
  by pat_completeness auto
termination
  by (relation "measure (\<lambda>(p, s). length s)") auto

text \<open>\<^verbatim>\<open>s.lstrip("/")\<close> removes every leading slash.\<close>

definition lstrip_slash :: "string \<Rightarrow> string" where
  "lstrip_slash s = dropWhile (\<lambda>c. c = CHR ''/'') s"

text \<open>\<^verbatim>\<open>s.index(c)\<close>: the position of the first \<open>c\<close>; \<open>None\<close> stands for the ValueError.\<close>

fun py_index :: "char \<Rightarrow> string \<Rightarrow> nat option" where
  "py_index c [] = None"
| "py_index c (x # xs) = (if x = c then Some 0 else map_option Suc (py_index c xs))"

text \<open>\<^verbatim>\<open>sep.join(xs)\<close>\<close>

fun join :: "string \<Rightarrow> string list \<Rightarrow> string" where
  "join sep [] = []"
| "join sep [x] = x"
| "join sep (x # y # ys) = x @ sep @ join sep (y # ys)"

text \<open>
  \<^verbatim>\<open>xs[i:j]\<close>: a negative bound counts from the end, and both bounds are clamped to the
  list.
\<close>

definition slice_bound :: "nat \<Rightarrow> int \<Rightarrow> nat" where
  "slice_bound n i = (if i < 0 then nat (max (i + int n) 0) else min (nat i) n)"

definition py_slice :: "'a list \<Rightarrow> int \<Rightarrow> int \<Rightarrow> 'a list" where
  "py_slice xs i j =
     (let lo = slice_bound (length xs) i; hi = slice_bound (length xs) j
      in take (hi - lo) (drop lo xs))"

text \<open>
  \<^verbatim>\<open>int(s)\<close> on text with code points below 256: surrounding white space is dropped,
  one sign is allowed, and the digits may be grouped by single underscores. White space
  is tab, line feed, vertical tab, form feed, carriage return and space, and the two
  characters 0x85 and 0xA0, which Python turns into spaces first. \<open>None\<close> stands for
  the ValueError.
\<close>

definition is_digit :: "char \<Rightarrow> bool" where
  "is_digit c = (48 \<le> (of_char c :: nat) \<and> (of_char c :: nat) \<le> 57)"

definition digit_val :: "char \<Rightarrow> nat" where
  "digit_val c = (of_char c :: nat) - 48"

definition is_py_space :: "char \<Rightarrow> bool" where
  "is_py_space c = (of_char c \<in> set [9, 10, 11, 12, 13, 32, 133, 160 :: nat])"

definition strip :: "string \<Rightarrow> string" where
  "strip s = rev (dropWhile is_py_space (rev (dropWhile is_py_space s)))"

fun parse_digits :: "nat \<Rightarrow> string \<Rightarrow> nat option" where
  "parse_digits acc [] = Some acc"
| "parse_digits acc (c # cs) =
     (if is_digit c then parse_digits (acc * 10 + digit_val c) cs
      else if c = CHR ''_'' then
        (case cs of
           [] \<Rightarrow> None
         | d # _ \<Rightarrow> if is_digit d then parse_digits acc cs else None)
      else None)"

definition parse_unsigned :: "string \<Rightarrow> nat option" where
  "parse_unsigned s =
     (case s of
        [] \<Rightarrow> None
      | d # _ \<Rightarrow> if is_digit d then parse_digits 0 s else None)"

definition py_int :: "string \<Rightarrow> int option" where
  "py_int s =
     (case strip s of
        [] \<Rightarrow> None
      | c # cs \<Rightarrow>
          if c = CHR ''-'' then map_option (\<lambda>n. - int n) (parse_unsigned cs)
          else if c = CHR ''+'' then map_option int (parse_unsigned cs)
          else map_option int (parse_unsigned (c # cs)))"

text \<open>The decimal text of an integer, as an f-string prints it.\<close>

definition digit_char :: "nat \<Rightarrow> char" where
  "digit_char d = ''0123456789'' ! d"

function str_nat :: "nat \<Rightarrow> string" where
  "str_nat n = (if n < 10 then [digit_char n] else str_nat (n div 10) @ [digit_char (n mod 10)])"
  by pat_completeness auto
termination
  by (relation "measure id") auto

declare str_nat.simps [simp del]

definition str_int :: "int \<Rightarrow> string" where
  "str_int i = (if i < 0 then CHR ''-'' # str_nat (nat (- i)) else str_nat (nat i))"

section \<open>The \<^verbatim>\<open>sa_utils\<close> module and the globals\<close>

text \<open>
  Modelled from the spec: the module \<^verbatim>\<open>sa_utils\<close> (imported as \<^verbatim>\<open>utils\<close>) is not part of
  the sources. Its constants and helper functions are the fields of the record
  \<open>sa_utils\<close>, so every result below holds for whatever they are; the helpers are pure
  functions of their arguments, since the spec names the file-content cache and the
  character counter as the only mutable resources. The field \<open>open_readlines\<close> is the
  file system: the result of \<^verbatim>\<open>open(path).readlines()\<close>, with \<open>None\<close> for
  FileNotFoundError. The type \<open>'m\<close> is the changed-files mapping, which only
  \<^verbatim>\<open>is_part_of_pr_changes\<close> inspects.

  \<open>REPO_NAME\<close> and \<open>SHA\<close> are globals of \<^verbatim>\<open>run_static_analysis\<close> itself, which
  \<^verbatim>\<open>generate_output\<close> and \<^verbatim>\<open>prepare_comment_body\<close> read by their bare names. The
  sources bind \<open>REPO_NAME\<close> on line 250 only, when the fork flag is set, and bind
  \<open>SHA\<close> nowhere; the docstring of \<^verbatim>\<open>generate_output\<close> has them "set before calling".
  They are fields of the same record, \<open>None\<close> for a name that is not bound: reading it
  raises NameError.
\<close>

record 'm sa_utils =
  REPO_NAME :: "string option"
  SHA :: "string option"
  TARGET_REPO_NAME :: string
  COMMENT_MAX_SIZE :: int
  COMMENT_TITLE :: string
  MAX_CHAR_COUNT_REACHED :: string
  open_readlines :: "string \<Rightarrow> string list option"
  is_excluded_dir :: "string \<Rightarrow> bool"
  get_file_line_end :: "string \<Rightarrow> int \<Rightarrow> int"
  is_part_of_pr_changes :: "string \<Rightarrow> int \<Rightarrow> 'm \<Rightarrow> bool"
  generate_description :: "bool \<Rightarrow> bool \<Rightarrow> int \<Rightarrow> string \<Rightarrow> string \<Rightarrow> string \<times> string"

text \<open>
  The two mutable globals \<^verbatim>\<open>utils.CURRENT_COMMENT_LENGTH\<close> and
  \<^verbatim>\<open>utils.FILES_WITH_ISSUES\<close> (a dictionary from file path to the lines of the file).
\<close>

record sa_globals =
  CURRENT_COMMENT_LENGTH :: int
  FILES_WITH_ISSUES :: "string \<Rightarrow> string list option"

text \<open>
  Modelled from the spec: \<^verbatim>\<open>utils.check_for_char_limit\<close> is not part of the sources. The
  spec's budget check: "compute candidate new total length; if it would reach or exceed
  the configured maximum, stop aggregating", so the check passes when the candidate
  total stays below the maximum.
\<close>

definition check_for_char_limit :: "'m sa_utils \<Rightarrow> int \<Rightarrow> string \<Rightarrow> bool" where
  "check_for_char_limit u current incoming_line =
     (current + int (length incoming_line) < COMMENT_MAX_SIZE u)"

section \<open>\<^verbatim>\<open>extract_info\<close>\<close>

text \<open>
  The tuple returned is \<open>(file_path, is_note, file_line_start, file_line_end,
  issue_description)\<close>. Each \<^verbatim>\<open>index\<close> that finds nothing and an \<^verbatim>\<open>int()\<close> of a
  non-number raise ValueError.
\<close>

definition extract_info ::
  "'m sa_utils \<Rightarrow> string \<Rightarrow> string \<Rightarrow> py_error + (string \<times> bool \<times> int \<times> int \<times> string)" where
  "extract_info u line prefix =
     (let line1 = lstrip_slash (remove_all prefix line) in
      case py_index CHR '':'' line1 of
        None \<Rightarrow> Inl ValueError
      | Some file_path_end_idx \<Rightarrow>
          let file_path = take file_path_end_idx line1;
              line2 = drop (file_path_end_idx + 1) line1
          in (case py_index CHR '':'' line2 of
                None \<Rightarrow> Inl ValueError
              | Some j \<Rightarrow>
                  (case py_int (take j line2) of
                     None \<Rightarrow> Inl ValueError
                   | Some file_line_start \<Rightarrow>
                       let file_line_end = get_file_line_end u file_path file_line_start
                       in (case py_index CHR '' '' line2 of
                             None \<Rightarrow> Inl ValueError
                           | Some k \<Rightarrow>
                               let issue_description = drop (k + 1) line2;
                                   is_note = startswith issue_description ''note:''
                               in Inr (file_path, is_note, file_line_start, file_line_end,
                                       issue_description)))))"

section \<open>\<^verbatim>\<open>generate_output\<close>\<close>

text \<open>
  The function reads and extends the cache \<^verbatim>\<open>FILES_WITH_ISSUES\<close>, so the cache is passed
  in and returned. The statements raise in the order of the source: the comparison on
  line 73 reads \<open>REPO_NAME\<close>; after a FileNotFoundError (the \<^verbatim>\<open>except\<close> branch only
  prints) the cache has no entry for the path and the lookup on line 82 raises KeyError;
  an empty slice makes \<^verbatim>\<open>modified_content[0]\<close> on line 90 raise IndexError; the
  f-strings on lines 93 and 105 read \<open>SHA\<close>.
\<close>

definition mark_first :: "string \<Rightarrow> string" where
  "mark_first l = butlast l @ '' <---- HERE\<newline>''"

definition file_url :: "string \<Rightarrow> string \<Rightarrow> string \<Rightarrow> int \<Rightarrow> string" where
  \<open>file_url repo sha file_path file_line_start =
     ''https://github.com/'' @ repo @ ''/blob/'' @ sha @ ''/'' @ file_path
       @ ''#L'' @ str_int file_line_start\<close>

definition generate_output ::
  "'m sa_utils \<Rightarrow> (string \<Rightarrow> string list option) \<Rightarrow> bool \<Rightarrow> string \<Rightarrow> int \<Rightarrow> int \<Rightarrow> string
     \<Rightarrow> py_error + (string \<times> (string \<Rightarrow> string list option))" where
  \<open>generate_output u files is_note file_path file_line_start file_line_end description =
     (if \<not> is_note then
        (case REPO_NAME u of
           None \<Rightarrow> Inl NameError
         | Some repo \<Rightarrow>
             if TARGET_REPO_NAME u \<noteq> repo then
               let files1 =
                     (if files file_path = None then
                        (case open_readlines u file_path of
                           Some lines \<Rightarrow> files(file_path \<mapsto> lines)
                         | None \<Rightarrow> files)
                      else files)
               in (case files1 file_path of
                     None \<Rightarrow> Inl KeyError
                   | Some lines \<Rightarrow>
                       (case py_slice lines (file_line_start - 1) (file_line_end - 1) of
                          [] \<Rightarrow> Inl IndexError
                        | l0 # ls \<Rightarrow>
                            let file_content = concat (mark_first l0 # ls)
                            in (case SHA u of
                                  None \<Rightarrow> Inl NameError
                                | Some sha \<Rightarrow>
                                    Inr (''\<newline>\<newline>------''
                                           @ ''\<newline>\<newline> <b><i>Issue found in file</b></i> [''
                                           @ repo @ ''/'' @ file_path @ '']('' 
                                           @ file_url repo sha file_path file_line_start
                                           @ '')\<newline>''
                                           @ ''```cpp\<newline>''
                                           @ file_content
                                           @ ''\<newline>``` \<newline>''
                                           @ description @ '' <br>\<newline>'',
                                         files1))))
             else
               (case SHA u of
                  None \<Rightarrow> Inl NameError
                | Some sha \<Rightarrow>
                    Inr (''\<newline>\<newline>https://github.com/'' @ repo @ ''/blob/'' @ sha @ ''/''
                           @ file_path @ ''#L'' @ str_int file_line_start @ ''-L''
                           @ str_int file_line_end @ '' '' @ description @ '' <br>\<newline>'',
                         files)))
      else Inr (description, files))\<close>

section \<open>\<^verbatim>\<open>append_issue\<close> and \<^verbatim>\<open>create_comment_for_output\<close>\<close>

text \<open>
  \<^verbatim>\<open>append_issue\<close> appends to the caller's list in place and returns the new pending
  string; the model returns both.
\<close>

definition append_issue ::
  "bool \<Rightarrow> string \<Rightarrow> string \<Rightarrow> string list \<Rightarrow> string \<times> string list" where
  "append_issue is_note per_issue_string new_line list_of_issues =
     (if \<not> is_note then
        (new_line,
         if length per_issue_string > 0 \<and> per_issue_string \<notin> set list_of_issues
         then list_of_issues @ [per_issue_string] else list_of_issues)
      else (per_issue_string @ new_line, list_of_issues))"

text \<open>The variables of the loop: three locals and the two globals.\<close>

record loop_state =
  list_of_issues :: "string list"
  per_issue_string :: string
  was_note :: bool
  comment_length :: int
  files_with_issues :: "string \<Rightarrow> string list option"

text \<open>
  One iteration of the \<^verbatim>\<open>for\<close> loop. The result says whether the loop goes on
  (\<open>Continue\<close>) or the function returns from inside the loop (\<open>Return\<close>, line 189).
\<close>

datatype control = Continue | Return

definition loop_body ::
  "'m sa_utils \<Rightarrow> string \<Rightarrow> 'm \<Rightarrow> bool \<Rightarrow> string \<Rightarrow> loop_state
     \<Rightarrow> py_error + (control \<times> loop_state)" where
  "loop_body u prefix files_changed_in_pr output_to_console line s =
     (if startswith line prefix \<and> \<not> is_excluded_dir u line then
        (case extract_info u line prefix of
           Inl e \<Rightarrow> Inl e
         | Inr (file_path, is_note, file_line_start, file_line_end, issue_description) \<Rightarrow>
             if output_to_console then
               (case append_issue is_note (per_issue_string s) line (list_of_issues s) of
                  (p, l) \<Rightarrow> Inr (Continue, s\<lparr>per_issue_string := p, list_of_issues := l\<rparr>))
             else if is_part_of_pr_changes u file_path file_line_start files_changed_in_pr then
               (case generate_description u is_note (was_note s) file_line_start
                       issue_description (per_issue_string s) of
                  (p1, description) \<Rightarrow>
                    (case generate_output u (files_with_issues s) is_note file_path
                            file_line_start file_line_end description of
                       Inl e \<Rightarrow> Inl e
                     | Inr (new_line, files1) \<Rightarrow>
                         if check_for_char_limit u (comment_length s) new_line then
                           (case append_issue is_note p1 new_line (list_of_issues s) of
                              (p, l) \<Rightarrow>
                                Inr (Continue,
                                     s\<lparr>per_issue_string := p, list_of_issues := l,
                                       was_note := is_note,
                                       comment_length :=
                                         comment_length s + int (length new_line),
                                       files_with_issues := files1\<rparr>))
                         else
                           Inr (Return,
                                s\<lparr>per_issue_string := p1, was_note := is_note,
                                  comment_length := COMMENT_MAX_SIZE u,
                                  files_with_issues := files1\<rparr>)))
             else Inr (Continue, s))
      else Inr (Continue, s))"

fun for_loop ::
  "'m sa_utils \<Rightarrow> string \<Rightarrow> 'm \<Rightarrow> bool \<Rightarrow> string list \<Rightarrow> loop_state
     \<Rightarrow> py_error + (control \<times> loop_state)" where
  "for_loop u prefix fc oc [] s = Inr (Continue, s)"
| "for_loop u prefix fc oc (line # rest) s =
     (case loop_body u prefix fc oc line s of
        Inl e \<Rightarrow> Inl e
      | Inr (Return, s1) \<Rightarrow> Inr (Return, s1)
      | Inr (Continue, s1) \<Rightarrow> for_loop u prefix fc oc rest s1)"

definition init_state :: "sa_globals \<Rightarrow> loop_state" where
  "init_state g =
     \<lparr>list_of_issues = [], per_issue_string = [], was_note = False,
      comment_length = CURRENT_COMMENT_LENGTH g,
      files_with_issues = FILES_WITH_ISSUES g\<rparr>"

definition globals_of :: "loop_state \<Rightarrow> sa_globals" where
  "globals_of s =
     \<lparr>CURRENT_COMMENT_LENGTH = comment_length s, FILES_WITH_ISSUES = files_with_issues s\<rparr>"

text \<open>
  The value of \<^verbatim>\<open>list_of_issues\<close> when \<^verbatim>\<open>create_comment_for_output\<close> returns: as it
  is at the early return, and after the flush of the pending string at the end of the
  loop.
\<close>

definition flush :: "loop_state \<Rightarrow> string list" where
  "flush s =
     (if length (per_issue_string s) > 0 \<and> per_issue_string s \<notin> set (list_of_issues s)
      then list_of_issues s @ [per_issue_string s] else list_of_issues s)"

definition returned_issues ::
  "'m sa_utils \<Rightarrow> string list \<Rightarrow> string \<Rightarrow> 'm \<Rightarrow> bool \<Rightarrow> sa_globals
     \<Rightarrow> py_error + (string list \<times> sa_globals)" where
  "returned_issues u tool_output prefix files_changed_in_pr output_to_console g =
     (case for_loop u prefix files_changed_in_pr output_to_console tool_output (init_state g) of
        Inl e \<Rightarrow> Inl e
      | Inr (Return, s) \<Rightarrow> Inr (list_of_issues s, globals_of s)
      | Inr (Continue, s) \<Rightarrow> Inr (flush s, globals_of s))"

definition create_comment_for_output ::
  "'m sa_utils \<Rightarrow> string list \<Rightarrow> string \<Rightarrow> 'm \<Rightarrow> bool \<Rightarrow> sa_globals
     \<Rightarrow> py_error + ((string \<times> int) \<times> sa_globals)" where
  "create_comment_for_output u tool_output prefix files_changed_in_pr output_to_console g =
     (case returned_issues u tool_output prefix files_changed_in_pr output_to_console g of
        Inl e \<Rightarrow> Inl e
      | Inr (l, g1) \<Rightarrow> Inr ((join ''\<newline>'' l, int (length l)), g1))"

section \<open>\<^verbatim>\<open>prepare_comment_body\<close>\<close>

text \<open>
  The body is built first; then the counter is compared with the maximum; then line 352
  formats a debug message that reads \<open>REPO_NAME\<close> by its bare name, which raises
  NameError when the name is not bound; then the body is returned.
\<close>

definition prepare_comment_body ::
  "'m sa_utils \<Rightarrow> sa_globals \<Rightarrow> string \<Rightarrow> string \<Rightarrow> int \<Rightarrow> int \<Rightarrow> py_error + string" where
  \<open>prepare_comment_body u g cppcheck_comment clang_tidy_comment cppcheck_issues_found
       clang_tidy_issues_found =
     (let full_comment_body =
        (if cppcheck_issues_found = 0 \<and> clang_tidy_issues_found = 0 then
           ''## <p align="center"><b> :white_check_mark:''
             @ COMMENT_TITLE u @ '' - no issues found! :white_check_mark: </b></p>''
         else
           let b0 = ''## <p align="center"><b> :zap: '' @ COMMENT_TITLE u
                      @ '' :zap: </b></p> \<newline>\<newline>'';
               b1 = (if length cppcheck_comment > 0 then
                       b0 @ ''<details> <summary> <b> :red_circle: cppcheck found ''
                          @ str_int cppcheck_issues_found @ '' ''
                          @ (if cppcheck_issues_found > 1 then ''issues'' else ''issue'') @ ''!''
                          @ '' Click here to see details. </b> </summary> <br>''
                          @ cppcheck_comment @ '' </details>''
                     else b0);
               b2 = b1 @ ''\<newline>\<newline> *** \<newline>''
           in (if length clang_tidy_comment > 0 then
                 b2 @ ''<details> <summary> <b> :red_circle: clang-tidy found ''
                    @ str_int clang_tidy_issues_found @ '' ''
                    @ (if clang_tidy_issues_found > 1 then ''issues'' else ''issue'') @ ''!''
                    @ '' Click here to see details. </b> </summary> <br>''
                    @ clang_tidy_comment @ '' </details><br>\<newline>''
               else b2));
          full_comment_body1 =
            (if CURRENT_COMMENT_LENGTH g = COMMENT_MAX_SIZE u
             then full_comment_body @ ''\<newline>```diff\<newline>'' @ MAX_CHAR_COUNT_REACHED u
                    @ ''\<newline>```''
             else full_comment_body)
      in (case REPO_NAME u of
            None \<Rightarrow> Inl NameError
          | Some repo \<Rightarrow> Inr full_comment_body1))\<close>

section \<open>A concrete configuration\<close>

text \<open>
  Modelled from the spec: \<^verbatim>\<open>utils.is_part_of_pr_changes\<close> is not part of the sources.
  The spec's range filter: "returns true if the mapping is empty OR the path is present
  and the line falls within at least one recorded interval". The mapping is an
  association list from file path to intervals.
\<close>

definition is_part_of_pr_changes_spec ::
  "string \<Rightarrow> int \<Rightarrow> (string \<times> (int \<times> int) list) list \<Rightarrow> bool" where
  "is_part_of_pr_changes_spec file_path file_line m =
     (m = [] \<or>
      (case map_of m file_path of
         None \<Rightarrow> False
       | Some ivs \<Rightarrow> list_ex (\<lambda>(a, b). a \<le> file_line \<and> file_line \<le> b) ivs))"

text \<open>
  Modelled from the spec: \<^verbatim>\<open>utils.generate_description\<close> is not part of the sources.
  The spec gives the description as the parsed remainder of the line and has a note's
  text appended to the pending entry as it is, so this instance returns the pending
  string and the description unchanged.
\<close>

definition generate_description_spec ::
  "bool \<Rightarrow> bool \<Rightarrow> int \<Rightarrow> string \<Rightarrow> string \<Rightarrow> string \<times> string" where
  "generate_description_spec is_note was_note_before file_line_start issue_description
       pending = (pending, issue_description)"

text \<open>
  A configuration used to run the functions on concrete inputs: both globals are
  bound, the diagnostics come from the target repository itself, no directory is
  excluded, no file can be opened, and the comment may hold 150 characters.
\<close>

definition example_utils :: "(string \<times> (int \<times> int) list) list sa_utils" where
  "example_utils =
     \<lparr>REPO_NAME = Some ''r'', SHA = Some ''s'', TARGET_REPO_NAME = ''r'',
      COMMENT_MAX_SIZE = 150,
      COMMENT_TITLE = ''SA'', MAX_CHAR_COUNT_REACHED = ''cut'',
      open_readlines = (\<lambda>_. None), is_excluded_dir = (\<lambda>_. False),
      get_file_line_end = (\<lambda>_ n. n),
      is_part_of_pr_changes = is_part_of_pr_changes_spec,
      generate_description = generate_description_spec\<rparr>"

definition example_changes :: "(string \<times> (int \<times> int) list) list" where
  "example_changes = [(''a.cc'', [(1, 20)])]"

definition fresh_globals :: sa_globals where
  "fresh_globals = \<lparr>CURRENT_COMMENT_LENGTH = 0, FILES_WITH_ISSUES = (\<lambda>_. None)\<rparr>"

text \<open>
  A configuration in which the diagnostics come from a fork \<open>f\<close> of the target
  repository \<open>r\<close>, so that \<^verbatim>\<open>generate_output\<close> renders excerpts. Only the file
  \<^verbatim>\<open>a.cc\<close>, of three lines, can be opened; a diagnostic ends on the line after
  its first line, and the comment may hold 400 characters.
\<close>

definition fork_utils :: "(string \<times> (int \<times> int) list) list sa_utils" where
  "fork_utils =
     example_utils
       \<lparr>REPO_NAME := Some ''f'', COMMENT_MAX_SIZE := 400,
        get_file_line_end := (\<lambda>_ n. n + 1),
        open_readlines :=
          (\<lambda>path. if path = ''a.cc''
                   then Some [''int f(\<newline>'', ''  int x);\<newline>'', ''int y;\<newline>'']
                   else None)\<rparr>"

text \<open>
  The globals as the sources leave them after line 250 in a run on a fork: \<open>REPO_NAME\<close>
  is bound and \<open>SHA\<close> is not. The comment may hold 40 characters.
\<close>

definition shipped_fork_utils :: "(string \<times> (int \<times> int) list) list sa_utils" where
  "shipped_fork_utils = fork_utils\<lparr>SHA := None, COMMENT_MAX_SIZE := 40\<rparr>"

text \<open>The first configuration with room for 40 characters only.\<close>

definition tiny_utils :: "(string \<times> (int \<times> int) list) list sa_utils" where
  "tiny_utils = example_utils\<lparr>COMMENT_MAX_SIZE := 40\<rparr>"

section \<open>Notions used in the statements\<close>

text \<open>
  What the loop body does with a line, read off its branches: a line that lacks the
  prefix or lies in an excluded directory is skipped; a line that \<^verbatim>\<open>extract_info\<close>
  cannot parse raises; in comment mode a line outside the changes of the pull request
  is skipped; every other line is a note or an issue.
\<close>

datatype line_kind = Issue | Note | Skip | Malformed

definition classify :: "'m sa_utils \<Rightarrow> string \<Rightarrow> 'm \<Rightarrow> bool \<Rightarrow> string \<Rightarrow> line_kind" where
  "classify u prefix files_changed_in_pr output_to_console line =
     (if startswith line prefix \<and> \<not> is_excluded_dir u line then
        (case extract_info u line prefix of
           Inl e \<Rightarrow> Malformed
         | Inr (file_path, is_note, file_line_start, file_line_end, issue_description) \<Rightarrow>
             if output_to_console
                \<or> is_part_of_pr_changes u file_path file_line_start files_changed_in_pr
             then (if is_note then Note else Issue)
             else Skip)
      else Skip)"

text \<open>The number of lines of a stream that are neither skipped nor notes.\<close>

definition non_note_count :: "'m sa_utils \<Rightarrow> string \<Rightarrow> 'm \<Rightarrow> bool \<Rightarrow> string list \<Rightarrow> nat" where
  "non_note_count u prefix fc oc tool_output =
     length (filter (\<lambda>line. classify u prefix fc oc line = Issue) tool_output)"

text \<open>Whether the first line that is not skipped is a note: a note with no issue before it.\<close>

fun starts_with_note :: "line_kind list \<Rightarrow> bool" where
  "starts_with_note [] = False"
| "starts_with_note (Skip # ks) = starts_with_note ks"
| "starts_with_note (Note # ks) = True"
| "starts_with_note (k # ks) = False"

text \<open>
  Two properties that the absent \<^verbatim>\<open>utils.generate_description\<close> may have: it returns an
  empty pending string when it is given one, and it never returns a pending string
  longer than the one it is given.
\<close>

definition keeps_empty_pending :: "'m sa_utils \<Rightarrow> bool" where
  "keeps_empty_pending u =
     (\<forall>is_note wn ls d. fst (generate_description u is_note wn ls d []) = [])"

definition never_lengthens :: "'m sa_utils \<Rightarrow> bool" where
  "never_lengthens u =
     (\<forall>is_note wn ls d p. length (fst (generate_description u is_note wn ls d p)) \<le> length p)"

text \<open>
  The lines that \<^verbatim>\<open>generate_output\<close> works with for a path: the cached ones, and
  otherwise the ones that opening the file gives.
\<close>

definition file_view ::
  "'m sa_utils \<Rightarrow> (string \<Rightarrow> string list option) \<Rightarrow> string \<Rightarrow> string list option" where
  "file_view u files file_path =
     (case files file_path of Some lines \<Rightarrow> Some lines | None \<Rightarrow> open_readlines u file_path)"

text \<open>The total length of a list of entries.\<close>

definition total_length :: "string list \<Rightarrow> nat" where
  "total_length entries = sum_list (map length entries)"

text \<open>
  The state of a run that began with the counter at \<open>c0\<close> is within budget when the
  finalized entries and the pending string together are no longer than what the counter
  has grown by, and the counter is at most the maximum.
\<close>

definition within_budget :: "'m sa_utils \<Rightarrow> int \<Rightarrow> loop_state \<Rightarrow> bool" where
  "within_budget u c0 s =
     (c0 + int (total_length (list_of_issues s)) + int (length (per_issue_string s))
        \<le> comment_length s
      \<and> comment_length s \<le> COMMENT_MAX_SIZE u)"

section \<open>The report body as the spec describes it\<close>

text \<open>
  The parts of the report in the words of the spec, to be compared with what
  \<^verbatim>\<open>prepare_comment_body\<close> builds: the "no issues" banner, the title of a report with
  issues, a collapsible section labelled with the tool name and the pluralized count
  ("1 issue" / "N issues"), the divider, and the truncation notice.
\<close>

definition no_issues_banner :: "'m sa_utils \<Rightarrow> string" where
  \<open>no_issues_banner u =
     ''## <p align="center"><b> :white_check_mark:'' @ COMMENT_TITLE u
       @ '' - no issues found! :white_check_mark: </b></p>''\<close>

definition report_title :: "'m sa_utils \<Rightarrow> string" where
  \<open>report_title u =
     ''## <p align="center"><b> :zap: '' @ COMMENT_TITLE u @ '' :zap: </b></p> \<newline>\<newline>''\<close>

definition pluralized :: "int \<Rightarrow> string" where
  "pluralized n = (if n = 1 then ''1 issue'' else str_int n @ '' issues'')"

definition collapsible_section :: "string \<Rightarrow> int \<Rightarrow> string \<Rightarrow> string" where
  "collapsible_section tool n entries =
     ''<details> <summary> <b> :red_circle: '' @ tool @ '' found '' @ pluralized n
       @ ''! Click here to see details. </b> </summary> <br>'' @ entries @ '' </details>''"

definition divider :: string where
  "divider = ''\<newline>\<newline> *** \<newline>''"

definition truncation_notice :: "'m sa_utils \<Rightarrow> string" where
  "truncation_notice u = ''\<newline>```diff\<newline>'' @ MAX_CHAR_COUNT_REACHED u @ ''\<newline>```''"

section \<open>What a run reads of the cache\<close>

text \<open>
  The text or error of \<^verbatim>\<open>generate_output\<close> as a function of the view of the file, and
  the relation between two states of the loop that differ in their caches only, in a
  way that leaves every view the same.
\<close>

definition rendering ::
  "'m sa_utils \<Rightarrow> string list option \<Rightarrow> bool \<Rightarrow> string \<Rightarrow> int \<Rightarrow> int \<Rightarrow> string
     \<Rightarrow> py_error + string" where
  "rendering u view is_note fp ls le d =
     map_sum id fst
       (generate_output (u\<lparr>open_readlines := (\<lambda>_. None)\<rparr>) (\<lambda>_. view) is_note fp ls le d)"

definition same_view :: "'m sa_utils \<Rightarrow> loop_state \<Rightarrow> loop_state \<Rightarrow> bool" where
  "same_view u s t =
     (list_of_issues s = list_of_issues t \<and> per_issue_string s = per_issue_string t
      \<and> was_note s = was_note t \<and> comment_length s = comment_length t
      \<and> file_view u (files_with_issues s) = file_view u (files_with_issues t))"

section \<open>Evaluation and the structure of the loop\<close>

lemmas ev = extract_info_def lstrip_slash_def startswith_def py_int_def strip_def is_py_space_def
  parse_unsigned_def is_digit_def digit_val_def str_int_def str_nat.simps digit_char_def
  generate_output_def append_issue_def loop_body_def init_state_def globals_of_def flush_def
  returned_issues_def create_comment_for_output_def check_for_char_limit_def
  example_utils_def example_changes_def fresh_globals_def is_part_of_pr_changes_spec_def
  generate_description_spec_def py_slice_def slice_bound_def mark_first_def file_url_def

text \<open>The loop over a stream \<open>xs @ ys\<close> runs over \<open>xs\<close> and, unless that returned, over \<open>ys\<close>.\<close>

lemma for_loop_append:
  "for_loop u p fc oc (xs @ ys) s =
     (case for_loop u p fc oc xs s of
        Inl e \<Rightarrow> Inl e
      | Inr (Return, s1) \<Rightarrow> Inr (Return, s1)
      | Inr (Continue, s1) \<Rightarrow> for_loop u p fc oc ys s1)"
  by (induction xs arbitrary: s) (auto split: sum.splits control.splits prod.splits)

text \<open>A property that every iteration preserves holds after the loop.\<close>

lemma for_loop_invariant:
  assumes step: "\<And>line s c s'. P s \<Longrightarrow> loop_body u p fc oc line s = Inr (c, s') \<Longrightarrow> P s'"
      and init: "P s"
      and run: "for_loop u p fc oc lines s = Inr (c, s')"
  shows "P s'"
  using init run
proof (induction lines arbitrary: s)
  case Nil
  then show ?case by simp
next
  case (Cons line rest)
  then show ?case
    by (auto split: sum.splits control.splits prod.splits dest: step)
qed

text \<open>The list of finalized entries never holds an entry twice.\<close>

lemma append_issue_distinct:
  "distinct l \<Longrightarrow> append_issue is_note p nl l = (p', l') \<Longrightarrow> distinct l'"
  by (auto simp: append_issue_def split: if_splits)

lemma loop_body_distinct:
  "distinct (list_of_issues s) \<Longrightarrow> loop_body u p fc oc line s = Inr (c, s')
     \<Longrightarrow> distinct (list_of_issues s')"
  by (auto simp: loop_body_def split: if_splits sum.splits prod.splits
           dest: append_issue_distinct)

lemma for_loop_distinct:
  "distinct (list_of_issues s) \<Longrightarrow> for_loop u p fc oc lines s = Inr (c, s')
     \<Longrightarrow> distinct (list_of_issues s')"
  by (rule for_loop_invariant [where P = "\<lambda>s. distinct (list_of_issues s)"])
     (auto dest: loop_body_distinct)

lemma flush_distinct: "distinct (list_of_issues s) \<Longrightarrow> distinct (flush s)"
  by (simp add: flush_def)

lemma returned_issues_run:
  assumes "returned_issues u t p fc oc g = Inr (entries, g')"
  obtains c s where "for_loop u p fc oc t (init_state g) = Inr (c, s)"
    and "g' = globals_of s"
    and "entries = (if c = Return then list_of_issues s else flush s)"
  using assms
  by (auto simp: returned_issues_def split: sum.splits prod.splits control.splits)

lemma init_state_simps [simp]:
  "list_of_issues (init_state g) = []"
  "per_issue_string (init_state g) = []"
  "was_note (init_state g) = False"
  "comment_length (init_state g) = CURRENT_COMMENT_LENGTH g"
  "files_with_issues (init_state g) = FILES_WITH_ISSUES g"
  by (simp_all add: init_state_def)

lemma globals_of_simps [simp]:
  "CURRENT_COMMENT_LENGTH (globals_of s) = comment_length s"
  "FILES_WITH_ISSUES (globals_of s) = files_with_issues s"
  by (simp_all add: globals_of_def)

lemma returned_issues_distinct:
  assumes "returned_issues u t p fc oc g = Inr (entries, g')"
  shows "distinct entries"
proof -
  from assms obtain c s where run: "for_loop u p fc oc t (init_state g) = Inr (c, s)"
    and entries: "entries = (if c = Return then list_of_issues s else flush s)"
    by (rule returned_issues_run)
  have "distinct (list_of_issues s)"
    using for_loop_distinct [OF _ run] by simp
  then show ?thesis
    using entries by (simp add: flush_distinct)
qed

text \<open>The list of finalized entries only grows.\<close>

lemma loop_body_grows:
  "loop_body u p fc oc line s = Inr (c, s') \<Longrightarrow> set (list_of_issues s) \<subseteq> set (list_of_issues s')"
  by (auto simp: loop_body_def append_issue_def split: if_splits sum.splits prod.splits)

lemma for_loop_grows:
  "for_loop u p fc oc lines s = Inr (c, s') \<Longrightarrow> set (list_of_issues s) \<subseteq> set (list_of_issues s')"
proof (induction lines arbitrary: s)
  case Nil
  then show ?case by simp
next
  case (Cons line rest)
  then show ?case
    by (fastforce split: sum.splits control.splits prod.splits dest: loop_body_grows)
qed

lemma flush_grows: "set (list_of_issues s) \<subseteq> set (flush s)"
  by (auto simp: flush_def)

lemma distinct_count_list: "distinct xs \<Longrightarrow> x \<in> set xs \<Longrightarrow> count_list xs x = 1"
  by (induction xs) auto

text \<open>What an iteration does to the list of finalized entries, by the kind of the line.\<close>

lemma loop_body_classified:
  assumes body: "loop_body u p fc oc line s = Inr (c, s')"
      and gd: "oc \<or> keeps_empty_pending u"
  shows "classify u p fc oc line \<noteq> Malformed"
    and "classify u p fc oc line = Skip \<Longrightarrow> s' = s \<and> c = Continue"
    and "classify u p fc oc line = Issue \<Longrightarrow>
           length (list_of_issues s')
             \<le> length (list_of_issues s) + (if per_issue_string s = [] then 0 else 1)"
    and "classify u p fc oc line = Note \<Longrightarrow> list_of_issues s' = list_of_issues s"
proof -
  show "classify u p fc oc line \<noteq> Malformed"
    using body by (auto simp: loop_body_def classify_def split: if_splits sum.splits prod.splits)
  show "classify u p fc oc line = Skip \<Longrightarrow> s' = s \<and> c = Continue"
    using body by (auto simp: loop_body_def classify_def split: if_splits sum.splits prod.splits)
  show "classify u p fc oc line = Note \<Longrightarrow> list_of_issues s' = list_of_issues s"
    using body
    by (auto simp: loop_body_def classify_def append_issue_def
             split: if_splits sum.splits prod.splits)
  show "length (list_of_issues s')
             \<le> length (list_of_issues s) + (if per_issue_string s = [] then 0 else 1)"
    if k: "classify u p fc oc line = Issue"
  proof (cases oc)
    case True
    then show ?thesis
      using body k
      by (auto simp: loop_body_def classify_def append_issue_def
               split: if_splits sum.splits prod.splits)
  next
    case False
    then have ke: "keeps_empty_pending u" using gd by simp
    have e: "per_issue_string s = [] \<Longrightarrow> fst (generate_description u a b d e (per_issue_string s)) = []"
      for a b d e
      using ke by (simp add: keeps_empty_pending_def)
    show ?thesis
      using body k False
      apply (auto simp: loop_body_def classify_def append_issue_def
               split: if_splits sum.splits prod.splits)
      using e apply (metis fst_conv)+
      done
  qed
qed

lemma for_loop_count:
  assumes gd: "oc \<or> keeps_empty_pending u"
      and run: "for_loop u p fc oc lines s = Inr (c, s')"
  shows "length (list_of_issues s') + (if per_issue_string s' = [] then 0 else 1)
        \<le> length (list_of_issues s) + (if per_issue_string s = [] then 0 else 1)
            + non_note_count u p fc oc lines
            + (if per_issue_string s = [] \<and> starts_with_note (map (classify u p fc oc) lines)
               then 1 else 0)"
  using run
proof (induction lines arbitrary: s)
  case Nil
  then show ?case by (simp add: non_note_count_def)
next
  case (Cons line rest)
  from Cons.prems obtain c1 s1 where body: "loop_body u p fc oc line s = Inr (c1, s1)"
    by (auto split: sum.splits)
  note cl = loop_body_classified [OF body gd]
  have fin: "(c1 = Return \<and> c = Return \<and> s' = s1)
           \<or> (c1 = Continue \<and> for_loop u p fc oc rest s1 = Inr (c, s'))"
    using Cons.prems body by (cases c1) auto
  have bound: "length (list_of_issues s') + (if per_issue_string s' = [] then 0 else 1)
        \<le> length (list_of_issues s1) + (if per_issue_string s1 = [] then 0 else 1)
            + non_note_count u p fc oc rest
            + (if per_issue_string s1 = [] \<and> starts_with_note (map (classify u p fc oc) rest)
               then 1 else 0)"
    using fin Cons.IH [of s1] by auto
  show ?case
  proof (cases "classify u p fc oc line")
    case Issue
    then show ?thesis
      using bound cl(3) by (auto simp: non_note_count_def split: if_splits)
  next
    case Note
    then show ?thesis
      using bound cl(4) by (auto simp: non_note_count_def split: if_splits)
  next
    case Skip
    then show ?thesis
      using bound cl(2) by (auto simp: non_note_count_def split: if_splits)
  next
    case Malformed
    then show ?thesis using cl(1) by simp
  qed
qed

lemma length_flush:
  "length (flush s) \<le> length (list_of_issues s) + (if per_issue_string s = [] then 0 else 1)"
  by (simp add: flush_def)

lemma create_comment_returned:
  "create_comment_for_output u t p fc oc g = Inr ((out, n), g')
     \<longleftrightarrow> (\<exists>entries. returned_issues u t p fc oc g = Inr (entries, g')
            \<and> out = join ''\<newline>'' entries \<and> n = int (length entries))"
  by (auto simp: create_comment_for_output_def split: sum.splits prod.splits)

text \<open>A slice that starts inside the list, by positions.\<close>

lemma take_drop_nth:
  "hi \<le> length xs \<Longrightarrow> take (hi - lo) (drop lo xs) = map (\<lambda>k. xs ! k) [lo ..< hi]"
  by (rule nth_equalityI) auto

lemma py_slice_nth:
  assumes "0 \<le> i" "i < j" "i < int (length xs)"
  shows "py_slice xs i j = xs ! nat i # map (\<lambda>k. xs ! k) [Suc (nat i) ..< min (nat j) (length xs)]"
proof -
  let ?lo = "nat i" and ?hi = "min (nat j) (length xs)"
  have lo: "slice_bound (length xs) i = ?lo" and hi: "slice_bound (length xs) j = ?hi"
    using assms by (auto simp: slice_bound_def)
  have lt: "?lo < ?hi"
    using assms by auto
  have "py_slice xs i j = take (?hi - ?lo) (drop ?lo xs)"
    by (simp only: py_slice_def lo hi Let_def)
  also have "\<dots> = map (\<lambda>k. xs ! k) [?lo ..< ?hi]"
    by (rule take_drop_nth) simp
  also have "\<dots> = xs ! ?lo # map (\<lambda>k. xs ! k) [Suc ?lo ..< ?hi]"
    using lt by (simp add: upt_conv_Cons)
  finally show ?thesis .
qed

lemma py_slice_empty: "py_slice xs i i = []"
  by (simp add: py_slice_def)

lemma str_int_1: "str_int 1 = ''1''"
  by (simp add: str_int_def str_nat.simps digit_char_def)

text \<open>
  The text and the count that \<^verbatim>\<open>create_comment_for_output\<close> returns: the entries are
  not empty, so the text is empty exactly when the count is zero.
\<close>

lemma loop_body_nonempty:
  "\<forall>e \<in> set (list_of_issues s). e \<noteq> [] \<Longrightarrow> loop_body u p fc oc line s = Inr (c, s')
     \<Longrightarrow> \<forall>e \<in> set (list_of_issues s'). e \<noteq> []"
  by (auto simp: loop_body_def append_issue_def split: if_splits sum.splits prod.splits)

lemma for_loop_nonempty:
  "\<forall>e \<in> set (list_of_issues s). e \<noteq> [] \<Longrightarrow> for_loop u p fc oc lines s = Inr (c, s')
     \<Longrightarrow> \<forall>e \<in> set (list_of_issues s'). e \<noteq> []"
  by (rule for_loop_invariant [where P = "\<lambda>s. \<forall>e \<in> set (list_of_issues s). e \<noteq> []"])
     (auto dest: loop_body_nonempty)

lemma join_nonempty: "l \<noteq> [] \<Longrightarrow> \<forall>e \<in> set l. e \<noteq> [] \<Longrightarrow> join sep l \<noteq> []"
  by (induction sep l rule: join.induct) auto

lemma create_comment_for_output_count:
  assumes "create_comment_for_output u t p fc oc g = Inr ((out, n), g')"
  shows "0 \<le> n \<and> (out \<noteq> []) = (0 < n)"
proof -
  from assms obtain entries where r: "returned_issues u t p fc oc g = Inr (entries, g')"
    and out: "out = join ''\<newline>'' entries" and n: "n = int (length entries)"
    by (auto simp: create_comment_returned)
  from r obtain c s where loop: "for_loop u p fc oc t (init_state g) = Inr (c, s)"
    and entries: "entries = (if c = Return then list_of_issues s else flush s)"
    by (rule returned_issues_run)
  have "\<forall>e \<in> set (list_of_issues s). e \<noteq> []"
    using for_loop_nonempty [OF _ loop] by simp
  then have ne: "\<forall>e \<in> set entries. e \<noteq> []"
    using entries by (auto simp: flush_def)
  show ?thesis
  proof (cases "entries = []")
    case True
    then show ?thesis using out n by simp
  next
    case False
    then show ?thesis using out n ne join_nonempty [of entries] by simp
  qed
qed

text \<open>
  The character counter: an iteration never lowers a counter that is at most the
  maximum, and keeps it at most the maximum; the early return sets it to the maximum.
\<close>

lemma loop_body_counter:
  assumes "comment_length s \<le> COMMENT_MAX_SIZE u"
      and "loop_body u p fc oc line s = Inr (c, s')"
  shows "comment_length s \<le> comment_length s' \<and> comment_length s' \<le> COMMENT_MAX_SIZE u"
  using assms
  by (auto simp: loop_body_def check_for_char_limit_def split: if_splits sum.splits prod.splits)

lemma for_loop_counter:
  assumes "comment_length s \<le> COMMENT_MAX_SIZE u"
      and "for_loop u p fc oc lines s = Inr (c, s')"
  shows "comment_length s \<le> comment_length s' \<and> comment_length s' \<le> COMMENT_MAX_SIZE u"
  using assms
proof (induction lines arbitrary: s)
  case Nil
  then show ?case by simp
next
  case (Cons line rest)
  from Cons.prems obtain c1 s1 where body: "loop_body u p fc oc line s = Inr (c1, s1)"
    by (auto split: sum.splits)
  note b = loop_body_counter [OF Cons.prems(1) body]
  show ?case
  proof (cases c1)
    case Continue
    then have "for_loop u p fc oc rest s1 = Inr (c, s')"
      using Cons.prems body by simp
    then show ?thesis
      using Cons.IH [of s1] b by auto
  next
    case Return
    then have "s' = s1"
      using Cons.prems body by simp
    then show ?thesis using b by simp
  qed
qed

lemma return_sets_maximum:
  "loop_body u p fc oc line s = Inr (Return, s') \<Longrightarrow>
     comment_length s' = COMMENT_MAX_SIZE u \<and> list_of_issues s' = list_of_issues s"
  by (auto simp: loop_body_def append_issue_def split: if_splits sum.splits prod.splits)

lemma for_loop_return:
  "for_loop u p fc oc lines s = Inr (Return, s') \<Longrightarrow> comment_length s' = COMMENT_MAX_SIZE u"
proof (induction lines arbitrary: s)
  case Nil
  then show ?case by simp
next
  case (Cons line rest)
  then show ?case
    by (auto split: sum.splits control.splits prod.splits dest: return_sets_maximum)
qed

lemma total_length_append [simp]: "total_length (xs @ ys) = total_length xs + total_length ys"
  by (simp add: total_length_def)

lemma total_length_single [simp]: "total_length [x] = length x"
  by (simp add: total_length_def)

lemma total_length_take: "total_length (take k xs) \<le> total_length xs"
proof -
  have "total_length xs = total_length (take k xs) + total_length (drop k xs)"
    by (metis append_take_drop_id total_length_append)
  then show ?thesis by simp
qed

lemma generate_description_shorter:
  "never_lengthens u \<Longrightarrow> generate_description u a b d e p = (p1, desc)
     \<Longrightarrow> int (length p1) \<le> int (length p)"
  by (metis fst_conv never_lengthens_def of_nat_le_iff)

lemma loop_body_within_budget:
  assumes nl: "never_lengthens u"
      and inv: "within_budget u c0 s"
      and body: "loop_body u p fc False line s = Inr (c, s')"
  shows "within_budget u c0 s'"
proof (cases "startswith line p \<and> \<not> is_excluded_dir u line")
  case False
  then show ?thesis using body inv by (auto simp: loop_body_def)
next
  case True
  then obtain fp is_note ls le d where ex: "extract_info u line p = Inr (fp, is_note, ls, le, d)"
    using body by (auto simp: loop_body_def split: sum.splits)
  show ?thesis
  proof (cases "is_part_of_pr_changes u fp ls fc")
    case False
    then show ?thesis using body inv True ex by (auto simp: loop_body_def)
  next
    case inpr: True
    obtain p1 desc where gd: "generate_description u is_note (was_note s) ls d (per_issue_string s)
                                = (p1, desc)"
      by (cases "generate_description u is_note (was_note s) ls d (per_issue_string s)")
    obtain nl1 files1 where go: "generate_output u (files_with_issues s) is_note fp ls le desc
                                   = Inr (nl1, files1)"
      using body True ex inpr gd by (auto simp: loop_body_def split: sum.splits)
    have short: "int (length p1) \<le> int (length (per_issue_string s))"
      using nl gd by (rule generate_description_shorter)
    show ?thesis
      using body inv True ex inpr gd go short
      by (auto simp: loop_body_def within_budget_def append_issue_def check_for_char_limit_def
            split: if_splits)
  qed
qed

lemma for_loop_within_budget:
  assumes "never_lengthens u" "within_budget u c0 s"
      and "for_loop u p fc False lines s = Inr (c, s')"
  shows "within_budget u c0 s'"
  using assms(2,3)
  by (rule for_loop_invariant [where P = "within_budget u c0", rotated])
     (rule loop_body_within_budget [OF assms(1)])

text \<open>
  The list of finalized entries is only ever written: what an iteration does to the
  other variables does not depend on it.
\<close>

lemma loop_body_list_independent:
  assumes "loop_body u p fc oc line s = Inr (c, s')"
  shows "\<exists>l'. loop_body u p fc oc line (s\<lparr>list_of_issues := l\<rparr>)
               = Inr (c, s'\<lparr>list_of_issues := l'\<rparr>)"
proof (cases "startswith line p \<and> \<not> is_excluded_dir u line")
  case False
  then have "loop_body u p fc oc line (s\<lparr>list_of_issues := l\<rparr>)
               = Inr (c, s'\<lparr>list_of_issues := l\<rparr>)"
    using assms by (auto simp: loop_body_def)
  then show ?thesis ..
next
  case True
  then obtain fp is_note ls le d where ex: "extract_info u line p = Inr (fp, is_note, ls, le, d)"
    using assms by (auto simp: loop_body_def split: sum.splits)
  show ?thesis
  proof (cases oc)
    case console: True
    have "loop_body u p fc oc line (s\<lparr>list_of_issues := l\<rparr>)
               = Inr (c, s'\<lparr>list_of_issues :=
                              snd (append_issue is_note (per_issue_string s) line l)\<rparr>)"
      using assms True ex console by (auto simp: loop_body_def append_issue_def)
    then show ?thesis ..
  next
    case comment: False
    show ?thesis
    proof (cases "is_part_of_pr_changes u fp ls fc")
      case False
      then have "loop_body u p fc oc line (s\<lparr>list_of_issues := l\<rparr>)
               = Inr (c, s'\<lparr>list_of_issues := l\<rparr>)"
        using assms True ex comment by (auto simp: loop_body_def)
      then show ?thesis ..
    next
      case inpr: True
      obtain p1 desc where gd: "generate_description u is_note (was_note s) ls d (per_issue_string s)
                                  = (p1, desc)"
        by (cases "generate_description u is_note (was_note s) ls d (per_issue_string s)")
      obtain nl1 files1 where go: "generate_output u (files_with_issues s) is_note fp ls le desc
                                     = Inr (nl1, files1)"
        using assms True ex comment inpr gd by (auto simp: loop_body_def split: sum.splits)
      show ?thesis
      proof (cases "check_for_char_limit u (comment_length s) nl1")
        case False
        then have "loop_body u p fc oc line (s\<lparr>list_of_issues := l\<rparr>)
               = Inr (c, s'\<lparr>list_of_issues := l\<rparr>)"
          using assms True ex comment inpr gd go by (auto simp: loop_body_def)
        then show ?thesis ..
      next
        case True
        then have "loop_body u p fc oc line (s\<lparr>list_of_issues := l\<rparr>)
               = Inr (c, s'\<lparr>list_of_issues := snd (append_issue is_note p1 nl1 l)\<rparr>)"
          using assms \<open>startswith line p \<and> \<not> is_excluded_dir u line\<close> ex comment inpr gd go
          by (auto simp: loop_body_def append_issue_def)
        then show ?thesis ..
      qed
    qed
  qed
qed

lemma for_loop_list_independent:
  assumes "for_loop u p fc oc lines s = Inr (c, s')"
  shows "\<exists>l'. for_loop u p fc oc lines (s\<lparr>list_of_issues := l\<rparr>)
               = Inr (c, s'\<lparr>list_of_issues := l'\<rparr>)"
  using assms
proof (induction lines arbitrary: s l)
  case Nil
  then show ?case by auto
next
  case (Cons line rest)
  from Cons.prems obtain c1 s1 where body: "loop_body u p fc oc line s = Inr (c1, s1)"
    by (auto split: sum.splits)
  from loop_body_list_independent [OF body, of l]
  obtain l1 where body': "loop_body u p fc oc line (s\<lparr>list_of_issues := l\<rparr>)
                            = Inr (c1, s1\<lparr>list_of_issues := l1\<rparr>)"
    by blast
  show ?case
  proof (cases c1)
    case Return
    then show ?thesis using Cons.prems body body' by auto
  next
    case Continue
    then have "for_loop u p fc oc rest s1 = Inr (c, s')"
      using Cons.prems body by simp
    from Cons.IH [OF this, of l1] show ?thesis
      using body' Continue by simp
  qed
qed

text \<open>
  Loading a file into the cache leaves every view as it is, and the text that
  \<^verbatim>\<open>generate_output\<close> returns depends on the cache through the view only.
\<close>

lemma file_view_upd:
  "open_readlines u fp = Some lines \<Longrightarrow> files fp = None
     \<Longrightarrow> file_view u (files(fp \<mapsto> lines)) = file_view u files"
  by (auto simp: file_view_def fun_eq_iff)

lemma generate_output_view:
  assumes "generate_output u files is_note fp ls le d = Inr (nl, files1)"
  shows "file_view u files1 = file_view u files"
proof (cases "files fp")
  case (Some a)
  then show ?thesis
    using assms
    by (auto simp: generate_output_def Let_def split: if_splits option.splits list.splits)
next
  case None
  show ?thesis
  proof (cases "open_readlines u fp")
    case no: None
    then show ?thesis
      using assms None
      by (auto simp: generate_output_def Let_def split: if_splits option.splits list.splits)
  next
    case (Some lines)
    then have "files1 = files(fp \<mapsto> lines) \<or> files1 = files"
      using assms None
      by (auto simp: generate_output_def Let_def split: if_splits option.splits list.splits)
    then show ?thesis
      using Some None by (auto simp: file_view_upd)
  qed
qed

lemma generate_output_rendering:
  "map_sum id fst (generate_output u files is_note fp ls le d)
     = rendering u (file_view u files fp) is_note fp ls le d"
  by (auto simp: rendering_def generate_output_def file_view_def Let_def
           split: option.splits list.splits)


lemma generate_output_same_view:
  assumes view: "file_view u f1 = file_view u f2"
      and go: "generate_output u f1 is_note fp ls le d = Inr (nl, f1')"
  shows "\<exists>f2'. generate_output u f2 is_note fp ls le d = Inr (nl, f2')
             \<and> file_view u f1' = file_view u f2'"
proof -
  have "map_sum id fst (generate_output u f2 is_note fp ls le d)
          = map_sum id fst (generate_output u f1 is_note fp ls le d)"
    by (simp add: generate_output_rendering view)
  then have "map_sum id fst (generate_output u f2 is_note fp ls le d) = Inr nl"
    using go by simp
  then obtain f2' where go2: "generate_output u f2 is_note fp ls le d = Inr (nl, f2')"
    by (cases "generate_output u f2 is_note fp ls le d") auto
  have "file_view u f1' = file_view u f2'"
    using generate_output_view [OF go] generate_output_view [OF go2] view by simp
  then show ?thesis
    using go2 by blast
qed

lemma loop_body_same_view:
  assumes rel: "same_view u s t"
      and body: "loop_body u p fc oc line s = Inr (c, s')"
  shows "\<exists>t'. loop_body u p fc oc line t = Inr (c, t') \<and> same_view u s' t'"
proof (cases "startswith line p \<and> \<not> is_excluded_dir u line")
  case False
  then show ?thesis
    using rel body by (auto simp: loop_body_def)
next
  case True
  then obtain fp is_note ls le d where ex: "extract_info u line p = Inr (fp, is_note, ls, le, d)"
    using body by (auto simp: loop_body_def split: sum.splits)
  show ?thesis
  proof (cases oc)
    case console: True
    then show ?thesis
      using rel body True ex
      by (auto simp: loop_body_def same_view_def split: prod.splits)
  next
    case comment: False
    show ?thesis
    proof (cases "is_part_of_pr_changes u fp ls fc")
      case False
      then show ?thesis
        using rel body True ex comment by (auto simp: loop_body_def)
    next
      case inpr: True
      obtain p1 desc where gd: "generate_description u is_note (was_note s) ls d (per_issue_string s)
                                  = (p1, desc)"
        by (cases "generate_description u is_note (was_note s) ls d (per_issue_string s)")
      then have gd': "generate_description u is_note (was_note t) ls d (per_issue_string t)
                                  = (p1, desc)"
        using rel by (simp add: same_view_def)
      obtain nl1 files1 where go: "generate_output u (files_with_issues s) is_note fp ls le desc
                                     = Inr (nl1, files1)"
        using body True ex comment inpr gd by (auto simp: loop_body_def split: sum.splits)
      have "file_view u (files_with_issues s) = file_view u (files_with_issues t)"
        using rel by (simp add: same_view_def)
      from generate_output_same_view [OF this go]
      obtain files2 where go': "generate_output u (files_with_issues t) is_note fp ls le desc
                                     = Inr (nl1, files2)"
        and v: "file_view u files1 = file_view u files2"
        by blast
      show ?thesis
        using rel body True ex comment inpr gd gd' go go' v
        by (auto simp: loop_body_def same_view_def split: prod.splits if_splits)
    qed
  qed
qed

lemma for_loop_same_view:
  assumes "same_view u s t" "for_loop u p fc oc lines s = Inr (c, s')"
  shows "\<exists>t'. for_loop u p fc oc lines t = Inr (c, t') \<and> same_view u s' t'"
  using assms
proof (induction lines arbitrary: s t)
  case Nil
  then show ?case by auto
next
  case (Cons line rest)
  from Cons.prems obtain c1 s1 where body: "loop_body u p fc oc line s = Inr (c1, s1)"
    by (auto split: sum.splits)
  from loop_body_same_view [OF Cons.prems(1) body]
  obtain t1 where body': "loop_body u p fc oc line t = Inr (c1, t1)" and rel: "same_view u s1 t1"
    by blast
  show ?case
  proof (cases c1)
    case Return
    then show ?thesis using Cons.prems body body' rel by auto
  next
    case Continue
    then have "for_loop u p fc oc rest s1 = Inr (c, s')"
      using Cons.prems body by simp
    from Cons.IH [OF rel this] show ?thesis
      using body' Continue by simp
  qed
qed

lemma for_loop_view:
  assumes "for_loop u p fc oc lines s = Inr (c, s')"
  shows "file_view u (files_with_issues s') = file_view u (files_with_issues s)"
proof -
  have step: "file_view u (files_with_issues s2) = file_view u (files_with_issues s1)"
    if "loop_body u p fc oc line s1 = Inr (c1, s2)" for line s1 c1 s2
    using that
    by (auto simp: loop_body_def split: if_splits sum.splits prod.splits
             dest: generate_output_view)
  show ?thesis
    using assms
  proof (induction lines arbitrary: s)
    case Nil
    then show ?case by simp
  next
    case (Cons line rest)
    then show ?case
      by (auto split: sum.splits control.splits prod.splits dest: step)
  qed
qed

lemma returned_issues_same_view:
  assumes run: "returned_issues u t p fc oc g = Inr (entries, g1)"
      and counter: "CURRENT_COMMENT_LENGTH g2 = CURRENT_COMMENT_LENGTH g"
      and view: "file_view u (FILES_WITH_ISSUES g2) = file_view u (FILES_WITH_ISSUES g)"
  shows "\<exists>g3. returned_issues u t p fc oc g2 = Inr (entries, g3)"
proof -
  from run obtain c s where loop: "for_loop u p fc oc t (init_state g) = Inr (c, s)"
    and entries: "entries = (if c = Return then list_of_issues s else flush s)"
    by (rule returned_issues_run)
  have "same_view u (init_state g) (init_state g2)"
    using counter view by (simp add: same_view_def)
  from for_loop_same_view [OF this loop]
  obtain s2 where loop2: "for_loop u p fc oc t (init_state g2) = Inr (c, s2)"
    and rel: "same_view u s s2"
    by blast
  have "flush s2 = flush s" "list_of_issues s2 = list_of_issues s"
    using rel by (simp_all add: same_view_def flush_def)
  then show ?thesis
    using loop2 entries by (cases c) (simp_all add: returned_issues_def)
qed

section \<open>The budget check stops the run\<close>

text \<open>
  Claim C1. In comment mode, let the loop have processed the lines \<open>xs\<close> and reached the
  state \<open>s1\<close>, and let the next line be a diagnostic inside the pull request whose
  rendered line, added to the counter, reaches or exceeds \<open>COMMENT_MAX_SIZE\<close>. Then
  \<^verbatim>\<open>create_comment_for_output\<close> returns at once, whatever lines \<open>ys\<close> follow: its result
  is the join and the count of the entries finalized in \<open>s1\<close>, the pending string of
  \<open>s1\<close> is not among them, and the counter is set to \<open>COMMENT_MAX_SIZE\<close>.
\<close>

theorem budget_exceeded_returns_finalized:
  assumes earlier: "for_loop u prefix fc False xs (init_state g) = Inr (Continue, s1)"
      and matches: "startswith line prefix" "\<not> is_excluded_dir u line"
      and parsed: "extract_info u line prefix = Inr (file_path, is_note, ls, le, idesc)"
      and in_pr: "is_part_of_pr_changes u file_path ls fc"
      and described: "generate_description u is_note (was_note s1) ls idesc (per_issue_string s1)
                        = (p1, description)"
      and rendered: "generate_output u (files_with_issues s1) is_note file_path ls le description
                       = Inr (new_line, files1)"
      and over: "COMMENT_MAX_SIZE u \<le> comment_length s1 + int (length new_line)"
  shows "create_comment_for_output u (xs @ line # ys) prefix fc False g =
           Inr ((join ''\<newline>'' (list_of_issues s1), int (length (list_of_issues s1))),
                \<lparr>CURRENT_COMMENT_LENGTH = COMMENT_MAX_SIZE u, FILES_WITH_ISSUES = files1\<rparr>)"
proof -
  have body: "loop_body u prefix fc False line s1 =
                Inr (Return, s1\<lparr>per_issue_string := p1, was_note := is_note,
                                comment_length := COMMENT_MAX_SIZE u,
                                files_with_issues := files1\<rparr>)"
    using matches parsed in_pr described rendered over
    by (simp add: loop_body_def check_for_char_limit_def)
  have "for_loop u prefix fc False (xs @ line # ys) (init_state g) =
          Inr (Return, s1\<lparr>per_issue_string := p1, was_note := is_note,
                                comment_length := COMMENT_MAX_SIZE u,
                                files_with_issues := files1\<rparr>)"
    using earlier body by (simp add: for_loop_append)
  then show ?thesis
    by (simp add: create_comment_for_output_def returned_issues_def globals_of_def)
qed

theorem budget_exceeded_returns_finalized_witness:
  "create_comment_for_output example_utils
     ([''/w/a.cc:1:2: error: x\<newline>'', ''/w/a.cc:3:2: error: y\<newline>'']
        @ ''/w/a.cc:5:2: error: z\<newline>'' # [''/w/a.cc:7:2: error: v\<newline>''])
     ''/w'' example_changes False fresh_globals =
   Inr ((''\<newline>\<newline>https://github.com/r/blob/s/a.cc#L1-L1 error: x\<newline> <br>\<newline>'', 1),
        \<lparr>CURRENT_COMMENT_LENGTH = 150, FILES_WITH_ISSUES = (\<lambda>_. None)\<rparr>)"
proof -
  let ?s1 = "\<lparr>list_of_issues =
                 [''\<newline>\<newline>https://github.com/r/blob/s/a.cc#L1-L1 error: x\<newline> <br>\<newline>''],
               per_issue_string =
                 ''\<newline>\<newline>https://github.com/r/blob/s/a.cc#L3-L3 error: y\<newline> <br>\<newline>'',
               was_note = False, comment_length = 112,
               files_with_issues = (\<lambda>_. None)\<rparr>"
  have h1: "for_loop example_utils ''/w'' example_changes False
              [''/w/a.cc:1:2: error: x\<newline>'', ''/w/a.cc:3:2: error: y\<newline>'']
              (init_state fresh_globals) = Inr (Continue, ?s1)"
    by (simp add: ev)
  have h2: "startswith ''/w/a.cc:5:2: error: z\<newline>'' ''/w''"
    by (simp add: startswith_def)
  have h3: "\<not> is_excluded_dir example_utils ''/w/a.cc:5:2: error: z\<newline>''"
    by (simp add: example_utils_def)
  have h4: "extract_info example_utils ''/w/a.cc:5:2: error: z\<newline>'' ''/w'' =
              Inr (''a.cc'', False, 5, 5, ''error: z\<newline>'')"
    by (simp add: ev)
  have h5: "is_part_of_pr_changes example_utils ''a.cc'' 5 example_changes"
    by (simp add: ev)
  have h6: "generate_description example_utils False (was_note ?s1) 5 ''error: z\<newline>''
              (per_issue_string ?s1) =
            (''\<newline>\<newline>https://github.com/r/blob/s/a.cc#L3-L3 error: y\<newline> <br>\<newline>'',
             ''error: z\<newline>'')"
    by (simp add: ev)
  have h7: "generate_output example_utils (files_with_issues ?s1) False ''a.cc'' 5 5
              ''error: z\<newline>'' =
            Inr (''\<newline>\<newline>https://github.com/r/blob/s/a.cc#L5-L5 error: z\<newline> <br>\<newline>'',
                 (\<lambda>_. None))"
    by (simp add: ev)
  have h8: "COMMENT_MAX_SIZE example_utils \<le> comment_length ?s1
              + int (length ''\<newline>\<newline>https://github.com/r/blob/s/a.cc#L5-L5 error: z\<newline> <br>\<newline>'')"
    by (simp add: ev)
  show ?thesis
    using budget_exceeded_returns_finalized [OF h1 h2 h3 h4 h5 h6 h7 h8]
    by (simp add: example_utils_def)
qed

section \<open>The number of entries\<close>

text \<open>
  Claim C2, as amended. When \<^verbatim>\<open>create_comment_for_output\<close> returns, the count it
  returns is at most the number of lines that are neither skipped nor notes, plus one
  when the first line that is not skipped is a note. (A note with no issue before it
  becomes a pending string of its own, which is finalized like any other.) In comment
  mode this holds when \<^verbatim>\<open>generate_description\<close> returns an empty pending string for an
  empty one.
\<close>

theorem count_at_most_issue_lines:
  assumes run: "create_comment_for_output u tool_output prefix fc oc g = Inr ((out, n), g')"
      and gd: "oc \<or> keeps_empty_pending u"
  shows "n \<le> int (non_note_count u prefix fc oc tool_output)
               + (if starts_with_note (map (classify u prefix fc oc) tool_output) then 1 else 0)"
proof -
  from run obtain entries where r: "returned_issues u tool_output prefix fc oc g = Inr (entries, g')"
    and n: "n = int (length entries)"
    by (auto simp: create_comment_returned)
  from r obtain c s where loop: "for_loop u prefix fc oc tool_output (init_state g) = Inr (c, s)"
    and entries: "entries = (if c = Return then list_of_issues s else flush s)"
    by (rule returned_issues_run)
  have "length entries \<le> length (list_of_issues s) + (if per_issue_string s = [] then 0 else 1)"
    using entries length_flush [of s] by auto
  also have "\<dots> \<le> non_note_count u prefix fc oc tool_output
               + (if starts_with_note (map (classify u prefix fc oc) tool_output) then 1 else 0)"
    using for_loop_count [OF gd loop] by simp
  finally show ?thesis
    using n by (simp split: if_splits)
qed

theorem count_at_most_issue_lines_witness:
  "create_comment_for_output example_utils
     [''/w/a.cc:5:2: note: z\<newline>'', ''/w/a.cc:1:2: error: x\<newline>'', ''/w/b.cc:1:2: error: x\<newline>'',
      ''/w/a.cc:3:2: error: y\<newline>'']
     ''/w'' example_changes False fresh_globals
     = Inr ((''note: z\<newline>\<newline>\<newline>\<newline>https://github.com/r/blob/s/a.cc#L1-L1 error: x\<newline> <br>\<newline>\<newline>\<newline>\<newline>https://github.com/r/blob/s/a.cc#L3-L3 error: y\<newline> <br>\<newline>'',
             3),
            \<lparr>CURRENT_COMMENT_LENGTH = 120, FILES_WITH_ISSUES = (\<lambda>_. None)\<rparr>)
   \<and> non_note_count example_utils ''/w'' example_changes False
         [''/w/a.cc:5:2: note: z\<newline>'', ''/w/a.cc:1:2: error: x\<newline>'', ''/w/b.cc:1:2: error: x\<newline>'',
          ''/w/a.cc:3:2: error: y\<newline>''] = 2
   \<and> (3::int) \<le> 2 + 1"
proof -
  let ?t = "[''/w/a.cc:5:2: note: z\<newline>'', ''/w/a.cc:1:2: error: x\<newline>'', ''/w/b.cc:1:2: error: x\<newline>'',
             ''/w/a.cc:3:2: error: y\<newline>'']"
  have run: "create_comment_for_output example_utils ?t ''/w'' example_changes False fresh_globals
     = Inr ((''note: z\<newline>\<newline>\<newline>\<newline>https://github.com/r/blob/s/a.cc#L1-L1 error: x\<newline> <br>\<newline>\<newline>\<newline>\<newline>https://github.com/r/blob/s/a.cc#L3-L3 error: y\<newline> <br>\<newline>'',
             3),
            \<lparr>CURRENT_COMMENT_LENGTH = 120, FILES_WITH_ISSUES = (\<lambda>_. None)\<rparr>)"
    by (simp add: ev)
  have gd: "False \<or> keeps_empty_pending example_utils"
    by (simp add: keeps_empty_pending_def example_utils_def generate_description_spec_def)
  have cnt: "non_note_count example_utils ''/w'' example_changes False ?t = 2"
    by (simp add: non_note_count_def classify_def ev)
  have swn: "starts_with_note (map (classify example_utils ''/w'' example_changes False) ?t)"
    by (simp add: classify_def ev)
  show ?thesis
    using count_at_most_issue_lines [OF run gd] run cnt swn by simp
qed

text \<open>
  The claim as stated, without the extra entry, fails on a stream that consists of one
  note: the count is 1 and no line is a non-note line, in console mode and in comment
  mode alike.
\<close>

theorem orphan_note_counterexample:
  "create_comment_for_output example_utils [''/w/a.cc:5:2: note: z\<newline>''] ''/w''
     example_changes True fresh_globals
     = Inr ((''/w/a.cc:5:2: note: z\<newline>'', 1), fresh_globals)
   \<and> create_comment_for_output example_utils [''/w/a.cc:5:2: note: z\<newline>''] ''/w''
     example_changes False fresh_globals
     = Inr ((''note: z\<newline>'', 1),
            \<lparr>CURRENT_COMMENT_LENGTH = 8, FILES_WITH_ISSUES = (\<lambda>_. None)\<rparr>)
   \<and> non_note_count example_utils ''/w'' example_changes True [''/w/a.cc:5:2: note: z\<newline>''] = 0
   \<and> non_note_count example_utils ''/w'' example_changes False [''/w/a.cc:5:2: note: z\<newline>''] = 0"
  by (simp add: non_note_count_def classify_def ev)

section \<open>A source file that cannot be opened\<close>

text \<open>
  Claim C3. The claim asks that a file that cannot be opened costs only the excerpt.
  On the code, \<^verbatim>\<open>generate_output\<close> prints the warning in its \<^verbatim>\<open>except\<close> branch and
  then looks the path up in the cache, where it is missing: for a diagnostic of the fork
  against the file \<^verbatim>\<open>b.cc\<close>, which cannot be opened, the call raises KeyError, and so
  does the run of \<^verbatim>\<open>create_comment_for_output\<close> over a stream that holds this
  diagnostic, although a diagnostic against a readable file follows it. The lookup comes
  before \<open>SHA\<close> is read, so the call raises KeyError as well with the globals as the
  sources leave them on a fork.
\<close>

theorem missing_file_aborts:
  "generate_output fork_utils (\<lambda>_. None) False ''b.cc'' 1 2 ''error: x\<newline>'' = Inl KeyError
   \<and> create_comment_for_output fork_utils
        [''/w/b.cc:1:2: error: x\<newline>'', ''/w/a.cc:1:2: error: y\<newline>''] ''/w'' [] False fresh_globals
      = Inl KeyError
   \<and> generate_output shipped_fork_utils (\<lambda>_. None) False ''b.cc'' 1 2 ''error: x\<newline>''
      = Inl KeyError"
  by (simp add: ev fork_utils_def shipped_fork_utils_def)

section \<open>The excerpt of a diagnostic from another repository\<close>

text \<open>
  Claim C4. The claim has every diagnostic that is not a note, in a run whose
  repository differs from the target repository, rendered with an excerpt that shows
  the source line at \<open>lineStart\<close> with the marker. The code takes the slice
  \<^verbatim>\<open>[file_line_start - 1 : file_line_end - 1]\<close>, which is empty for a diagnostic that
  ends on the line where it starts, and \<^verbatim>\<open>modified_content[0]\<close> on line 90 then raises
  IndexError: so it is for a diagnostic on line 3 of the readable file \<^verbatim>\<open>a.cc\<close>, for
  the run over a stream that holds it when \<^verbatim>\<open>get_file_line_end\<close> gives the start line
  back, and with the globals as the sources leave them on a fork. With those globals a
  diagnostic with a longer range fails as well: line 93 reads \<open>SHA\<close>, which is not
  bound, and raises NameError.
\<close>

theorem excerpt_raises:
  "generate_output fork_utils (\<lambda>_. None) False ''a.cc'' 3 3 ''error: x\<newline>'' = Inl IndexError
   \<and> create_comment_for_output (fork_utils\<lparr>get_file_line_end := (\<lambda>_ n. n)\<rparr>)
        [''/w/a.cc:3:2: error: x\<newline>'', ''/w/a.cc:1:2: error: y\<newline>''] ''/w'' example_changes False
        fresh_globals
      = Inl IndexError
   \<and> generate_output shipped_fork_utils (\<lambda>_. None) False ''a.cc'' 3 3 ''error: x\<newline>''
      = Inl IndexError
   \<and> generate_output shipped_fork_utils (\<lambda>_. None) False ''a.cc'' 1 3 ''error: x\<newline>''
      = Inl NameError"
  by (simp add: ev fork_utils_def shipped_fork_utils_def)

text \<open>
  The empty slice does not depend on the file or on the configuration: no diagnostic
  from another repository that ends on the line where it starts is rendered.
\<close>

lemma one_line_excerpt_raises:
  assumes "REPO_NAME u = Some repo" "TARGET_REPO_NAME u \<noteq> repo"
  shows "\<exists>e. generate_output u files False file_path ls ls description = Inl e"
  using assms
  by (auto simp: generate_output_def py_slice_empty Let_def split: option.splits)

text \<open>
  Where both globals are bound, the file is in the cache or can be opened, and
  \<open>1 \<le> lineStart < lineEnd\<close> with \<open>lineStart\<close> at most the number of lines of the
  file, the block is the one that the claim describes: between the fences the lines
  \<open>lineStart\<close> up to but not including \<open>lineEnd\<close> (up to the end of the file when it is
  shorter), the first of them with its last character replaced by the marker and a line
  break; the cache holds the file afterwards, and a path that is in the cache is not
  read again.
\<close>

lemma excerpt_where_rendered:
  assumes bound: "REPO_NAME u = Some repo" "SHA u = Some sha"
      and cross: "TARGET_REPO_NAME u \<noteq> repo"
      and avail: "file_view u files file_path = Some lines"
      and range: "1 \<le> ls" "ls < le" "ls \<le> int (length lines)"
  shows "generate_output u files False file_path ls le description =
           Inr (''\<newline>\<newline>------\<newline>\<newline> <b><i>Issue found in file</b></i> ['' @ repo @ ''/''
                  @ file_path @ '']('' @ file_url repo sha file_path ls @ '')\<newline>```cpp\<newline>''
                  @ butlast (lines ! (nat ls - 1)) @ '' <---- HERE\<newline>''
                  @ concat (map (\<lambda>k. lines ! k) [nat ls ..< min (nat le - 1) (length lines)])
                  @ ''\<newline>``` \<newline>'' @ description @ '' <br>\<newline>'',
                files(file_path \<mapsto> lines))
       \<and> (files file_path \<noteq> None \<longrightarrow>
            files(file_path \<mapsto> lines) = files
            \<and> (\<forall>fs. generate_output (u\<lparr>open_readlines := fs\<rparr>) files False file_path ls le
                       description
                     = generate_output u files False file_path ls le description))"
proof -
  have sl: "py_slice lines (ls - 1) (le - 1) =
              lines ! (nat ls - 1) # map (\<lambda>k. lines ! k) [nat ls ..< min (nat le - 1) (length lines)]"
  proof -
    have "py_slice lines (ls - 1) (le - 1) =
            lines ! nat (ls - 1)
              # map (\<lambda>k. lines ! k) [Suc (nat (ls - 1)) ..< min (nat (le - 1)) (length lines)]"
      using range by (intro py_slice_nth) auto
    moreover have "nat (ls - 1) = nat ls - 1" "Suc (nat (ls - 1)) = nat ls" "nat (le - 1) = nat le - 1"
      using range by auto
    ultimately show ?thesis by simp
  qed
  have files1: "(if files file_path = None then
                   (case open_readlines u file_path of
                      Some lines \<Rightarrow> files(file_path \<mapsto> lines)
                    | None \<Rightarrow> files)
                 else files) = files(file_path \<mapsto> lines)"
    using avail by (auto simp: file_view_def split: option.splits)
  have first: "generate_output u files False file_path ls le description =
           Inr (''\<newline>\<newline>------\<newline>\<newline> <b><i>Issue found in file</b></i> ['' @ repo @ ''/''
                  @ file_path @ '']('' @ file_url repo sha file_path ls @ '')\<newline>```cpp\<newline>''
                  @ butlast (lines ! (nat ls - 1)) @ '' <---- HERE\<newline>''
                  @ concat (map (\<lambda>k. lines ! k) [nat ls ..< min (nat le - 1) (length lines)])
                  @ ''\<newline>``` \<newline>'' @ description @ '' <br>\<newline>'',
                files(file_path \<mapsto> lines))"
    unfolding generate_output_def files1 Let_def
    using cross bound by (simp add: sl mark_first_def)
  have second: "files(file_path \<mapsto> lines) = files
            \<and> (\<forall>fs. generate_output (u\<lparr>open_readlines := fs\<rparr>) files False file_path ls le
                       description
                     = generate_output u files False file_path ls le description)"
    if "files file_path \<noteq> None"
    using that avail
    by (auto simp: generate_output_def file_view_def Let_def split: list.splits option.splits)
  show ?thesis
    using first second by blast
qed

section \<open>Duplicate entries\<close>

text \<open>
  Claim C5. The list of entries that \<^verbatim>\<open>create_comment_for_output\<close> returns holds no
  text twice, the test being equality of strings. When \<^verbatim>\<open>append_issue\<close> finalizes a
  non-empty pending string, the list holds it exactly once afterwards, whether it was
  appended or dropped as a duplicate; every entry finalized at some point of the run is
  in the returned list exactly once; and when the loop ends with a non-empty pending
  string, the flush leaves exactly one copy of it in the returned list.
\<close>

theorem duplicates_dropped:
  assumes run: "returned_issues u tool_output prefix fc oc g = Inr (entries, g')"
  shows "distinct entries
       \<and> (\<forall>p nl l. p \<noteq> [] \<and> distinct l \<longrightarrow>
             distinct (snd (append_issue False p nl l))
             \<and> count_list (snd (append_issue False p nl l)) p = 1)
       \<and> (\<forall>xs ys s1 e. tool_output = xs @ ys
             \<and> for_loop u prefix fc oc xs (init_state g) = Inr (Continue, s1)
             \<and> e \<in> set (list_of_issues s1) \<longrightarrow> count_list entries e = 1)
       \<and> (\<forall>s. for_loop u prefix fc oc tool_output (init_state g) = Inr (Continue, s)
             \<and> per_issue_string s \<noteq> [] \<longrightarrow> count_list entries (per_issue_string s) = 1)"
proof (intro conjI allI impI)
  show d: "distinct entries"
    using run by (rule returned_issues_distinct)
  from run obtain c s where loop: "for_loop u prefix fc oc tool_output (init_state g) = Inr (c, s)"
    and entries: "entries = (if c = Return then list_of_issues s else flush s)"
    by (rule returned_issues_run)
  have sub: "set (list_of_issues s) \<subseteq> set entries"
    using entries flush_grows [of s] by auto
  {
    fix p nl :: string and l :: "string list"
    assume a: "p \<noteq> [] \<and> distinct l"
    then show "distinct (snd (append_issue False p nl l))"
      by (simp add: append_issue_def)
    from a show "count_list (snd (append_issue False p nl l)) p = 1"
      by (auto simp: append_issue_def distinct_count_list)
  }
  {
    fix xs ys s1 e
    assume a: "tool_output = xs @ ys
        \<and> for_loop u prefix fc oc xs (init_state g) = Inr (Continue, s1)
        \<and> e \<in> set (list_of_issues s1)"
    then have "for_loop u prefix fc oc ys s1 = Inr (c, s)"
      using loop by (simp add: for_loop_append)
    then have "set (list_of_issues s1) \<subseteq> set (list_of_issues s)"
      by (rule for_loop_grows)
    then have "e \<in> set entries"
      using a sub by auto
    then show "count_list entries e = 1"
      using d by (simp add: distinct_count_list)
  }
  {
    fix s2
    assume a: "for_loop u prefix fc oc tool_output (init_state g) = Inr (Continue, s2)
        \<and> per_issue_string s2 \<noteq> []"
    then have "c = Continue" "s2 = s"
      using loop by simp_all
    then have "per_issue_string s2 \<in> set entries"
      using a entries by (auto simp: flush_def)
    then show "count_list entries (per_issue_string s2) = 1"
      using d by (simp add: distinct_count_list)
  }
qed

theorem duplicates_dropped_witness:
  "returned_issues example_utils
     [''/w/a.cc:1:2: error: x\<newline>'', ''/w/a.cc:3:2: error: y\<newline>'',
      ''/w/a.cc:1:2: error: x\<newline>'', ''/w/a.cc:3:2: error: y\<newline>'']
     ''/w'' example_changes True fresh_globals
     = Inr ([''/w/a.cc:1:2: error: x\<newline>'', ''/w/a.cc:3:2: error: y\<newline>''], fresh_globals)
   \<and> count_list [''/w/a.cc:1:2: error: x\<newline>'', ''/w/a.cc:3:2: error: y\<newline>'']
         ''/w/a.cc:1:2: error: x\<newline>'' = 1
   \<and> count_list [''/w/a.cc:1:2: error: x\<newline>'', ''/w/a.cc:3:2: error: y\<newline>'']
         ''/w/a.cc:3:2: error: y\<newline>'' = 1"
proof -
  let ?l1 = "''/w/a.cc:1:2: error: x\<newline>''" and ?l2 = "''/w/a.cc:3:2: error: y\<newline>''"
  let ?s1 = "\<lparr>list_of_issues = [?l1], per_issue_string = ?l2, was_note = False,
               comment_length = 0, files_with_issues = (\<lambda>_. None)\<rparr>"
  let ?s2 = "\<lparr>list_of_issues = [?l1, ?l2], per_issue_string = ?l2, was_note = False,
               comment_length = 0, files_with_issues = (\<lambda>_. None)\<rparr>"
  have run: "returned_issues example_utils [?l1, ?l2, ?l1, ?l2] ''/w'' example_changes True
               fresh_globals = Inr ([?l1, ?l2], fresh_globals)"
    by (simp add: ev)
  have part: "for_loop example_utils ''/w'' example_changes True [?l1, ?l2]
                (init_state fresh_globals) = Inr (Continue, ?s1)"
    by (simp add: ev)
  have whole: "for_loop example_utils ''/w'' example_changes True [?l1, ?l2, ?l1, ?l2]
                (init_state fresh_globals) = Inr (Continue, ?s2)"
    by (simp add: ev)
  note d = duplicates_dropped [OF run]
  from d have "\<forall>xs ys s1 e. [?l1, ?l2, ?l1, ?l2] = xs @ ys
             \<and> for_loop example_utils ''/w'' example_changes True xs (init_state fresh_globals)
                 = Inr (Continue, s1)
             \<and> e \<in> set (list_of_issues s1) \<longrightarrow> count_list [?l1, ?l2] e = 1"
    by blast
  from this [rule_format, of "[?l1, ?l2]" "[?l1, ?l2]" ?s1 ?l1] part
  have c1: "count_list [?l1, ?l2] ?l1 = 1"
    by simp
  from d have "\<forall>s. for_loop example_utils ''/w'' example_changes True [?l1, ?l2, ?l1, ?l2]
                 (init_state fresh_globals) = Inr (Continue, s)
             \<and> per_issue_string s \<noteq> [] \<longrightarrow> count_list [?l1, ?l2] (per_issue_string s) = 1"
    by blast
  from this [rule_format, of ?s2] whole
  have c2: "count_list [?l1, ?l2] ?l2 = 1"
    by simp
  show ?thesis
    using run c1 c2 by blast
qed

section \<open>The report body\<close>

text \<open>
  Claim C6, as amended. Let \<open>REPO_NAME\<close> be bound, so that \<^verbatim>\<open>prepare_comment_body\<close>
  returns, let the counts be non-negative and let the text of each tool be non-empty
  exactly when its count is positive, as \<^verbatim>\<open>create_comment_for_output\<close> returns them.
  When the total count is zero, the body is the "no issues" banner. Otherwise it is the
  title, then for each tool with a positive count one collapsible section labelled with
  the tool name and the count, "1 issue" for one and "N issues" otherwise, with the
  divider after the place of the first section. In both cases the truncation notice
  follows when the character counter equals the maximum.
\<close>

theorem report_body:
  assumes bound: "REPO_NAME u = Some repo"
      and counts: "0 \<le> nc" "0 \<le> nt"
      and cc: "(cc \<noteq> []) = (0 < nc)"
      and ct: "(ct \<noteq> []) = (0 < nt)"
  shows "prepare_comment_body u g cc ct nc nt =
           Inr ((if nc + nt = 0 then no_issues_banner u
                 else report_title u
                        @ (if 0 < nc then collapsible_section ''cppcheck'' nc cc else [])
                        @ divider
                        @ (if 0 < nt then collapsible_section ''clang-tidy'' nt ct @ ''<br>\<newline>''
                           else []))
                @ (if CURRENT_COMMENT_LENGTH g = COMMENT_MAX_SIZE u then truncation_notice u
                   else []))"
proof -
  consider "nc = 0" | "nc = 1" | "1 < nc"
    using counts by linarith
  then show ?thesis
  proof cases
    case 1
    consider "nt = 0" | "nt = 1" | "1 < nt"
      using counts by linarith
    then show ?thesis
      using 1 cc ct bound
      by cases
         (simp_all add: prepare_comment_body_def no_issues_banner_def report_title_def
            collapsible_section_def divider_def truncation_notice_def pluralized_def str_int_1)
  next
    case 2
    consider "nt = 0" | "nt = 1" | "1 < nt"
      using counts by linarith
    then show ?thesis
      using 2 cc ct bound
      by cases
         (simp_all add: prepare_comment_body_def no_issues_banner_def report_title_def
            collapsible_section_def divider_def truncation_notice_def pluralized_def str_int_1)
  next
    case 3
    consider "nt = 0" | "nt = 1" | "1 < nt"
      using counts by linarith
    then show ?thesis
      using 3 cc ct bound
      by cases
         (simp_all add: prepare_comment_body_def no_issues_banner_def report_title_def
            collapsible_section_def divider_def truncation_notice_def pluralized_def str_int_1)
  qed
qed

theorem report_body_witness:
  \<open>prepare_comment_body fork_utils fresh_globals ''e1'' '''' 1 0 =
     Inr ''## <p align="center"><b> :zap: SA :zap: </b></p> \<newline>\<newline><details> <summary> <b> :red_circle: cppcheck found 1 issue! Click here to see details. </b> </summary> <br>e1 </details>\<newline>\<newline> *** \<newline>''
   \<and> prepare_comment_body fork_utils fresh_globals '''' ''e1\<newline>e2'' 0 2 =
     Inr ''## <p align="center"><b> :zap: SA :zap: </b></p> \<newline>\<newline>\<newline>\<newline> *** \<newline><details> <summary> <b> :red_circle: clang-tidy found 2 issues! Click here to see details. </b> </summary> <br>e1\<newline>e2 </details><br>\<newline>''
   \<and> prepare_comment_body fork_utils fresh_globals '''' '''' 0 0 =
     Inr ''## <p align="center"><b> :white_check_mark:SA - no issues found! :white_check_mark: </b></p>''\<close>
proof -
  have bound: "REPO_NAME fork_utils = Some ''f''"
    by (simp add: fork_utils_def example_utils_def)
  have a: \<open>prepare_comment_body fork_utils fresh_globals ''e1'' '''' 1 0 =
     Inr ''## <p align="center"><b> :zap: SA :zap: </b></p> \<newline>\<newline><details> <summary> <b> :red_circle: cppcheck found 1 issue! Click here to see details. </b> </summary> <br>e1 </details>\<newline>\<newline> *** \<newline>''\<close>
    using report_body [OF bound, of 1 0 "''e1''" "''''" fresh_globals]
    by (simp add: report_title_def collapsible_section_def divider_def pluralized_def
                  fork_utils_def example_utils_def fresh_globals_def)
  have b: \<open>prepare_comment_body fork_utils fresh_globals '''' ''e1\<newline>e2'' 0 2 =
     Inr ''## <p align="center"><b> :zap: SA :zap: </b></p> \<newline>\<newline>\<newline>\<newline> *** \<newline><details> <summary> <b> :red_circle: clang-tidy found 2 issues! Click here to see details. </b> </summary> <br>e1\<newline>e2 </details><br>\<newline>''\<close>
    using report_body [OF bound, of 0 2 "''''" "''e1\<newline>e2''" fresh_globals]
    by (simp add: report_title_def collapsible_section_def divider_def pluralized_def
                  fork_utils_def example_utils_def fresh_globals_def str_int_def str_nat.simps
                  digit_char_def)
  have c: \<open>prepare_comment_body fork_utils fresh_globals '''' '''' 0 0 =
     Inr ''## <p align="center"><b> :white_check_mark:SA - no issues found! :white_check_mark: </b></p>''\<close>
    using report_body [OF bound, of 0 0 "''''" "''''" fresh_globals]
    by (simp add: no_issues_banner_def fork_utils_def example_utils_def fresh_globals_def)
  show ?thesis
    using a b c by simp
qed

text \<open>
  The claim as stated, the banner and nothing else, fails after two runs that both hit
  the budget on their first line, here a note of 42 characters on a fork with the
  globals as the sources leave them: both counts are zero, the counter equals the
  maximum, and the body is the banner followed by the truncation notice.
\<close>

theorem banner_with_notice_counterexample:
  \<open>create_comment_for_output shipped_fork_utils
      [''/w/a.cc:5:2: note: this text is longer than the budget\<newline>''] ''/w'' example_changes False
      fresh_globals
     = Inr (('''', 0), \<lparr>CURRENT_COMMENT_LENGTH = 40, FILES_WITH_ISSUES = (\<lambda>_. None)\<rparr>)
   \<and> create_comment_for_output shipped_fork_utils
      [''/w/a.cc:7:2: note: this text is longer than the budget\<newline>''] ''/w'' example_changes False
      \<lparr>CURRENT_COMMENT_LENGTH = 40, FILES_WITH_ISSUES = (\<lambda>_. None)\<rparr>
     = Inr (('''', 0), \<lparr>CURRENT_COMMENT_LENGTH = 40, FILES_WITH_ISSUES = (\<lambda>_. None)\<rparr>)
   \<and> prepare_comment_body shipped_fork_utils
        \<lparr>CURRENT_COMMENT_LENGTH = 40, FILES_WITH_ISSUES = (\<lambda>_. None)\<rparr> '''' '''' 0 0
     = Inr ''## <p align="center"><b> :white_check_mark:SA - no issues found! :white_check_mark: </b></p>\<newline>```diff\<newline>cut\<newline>```''
   \<and> prepare_comment_body shipped_fork_utils
        \<lparr>CURRENT_COMMENT_LENGTH = 40, FILES_WITH_ISSUES = (\<lambda>_. None)\<rparr> '''' '''' 0 0
     \<noteq> Inr (no_issues_banner shipped_fork_utils)\<close>
  by (simp add: ev fork_utils_def shipped_fork_utils_def prepare_comment_body_def
                no_issues_banner_def)

section \<open>The character budget\<close>

text \<open>
  Claim C7, as amended. Let a run start with the counter at most the maximum. Then the
  counter never decreases: it is no smaller at the end than at the start, and no smaller
  after a longer part of the stream than after a shorter one. In comment mode, if the
  counter starts non-negative and \<^verbatim>\<open>generate_description\<close> never lengthens the pending
  string, the entries of every prefix of the returned list are together no longer than
  the maximum. And once the loop has returned on the budget, the returned entries are
  the ones finalized at that point, whatever follows in the stream, and the counter is
  the maximum.
\<close>

theorem budget_law:
  assumes start: "CURRENT_COMMENT_LENGTH g \<le> COMMENT_MAX_SIZE u"
      and run: "returned_issues u tool_output prefix fc oc g = Inr (entries, g')"
  shows "CURRENT_COMMENT_LENGTH g \<le> CURRENT_COMMENT_LENGTH g'
       \<and> (\<forall>xs ys zs c1 s1 c2 s2. tool_output = xs @ ys @ zs
             \<and> for_loop u prefix fc oc xs (init_state g) = Inr (c1, s1)
             \<and> for_loop u prefix fc oc (xs @ ys) (init_state g) = Inr (c2, s2)
             \<longrightarrow> comment_length s1 \<le> comment_length s2)
       \<and> (\<not> oc \<and> never_lengthens u \<and> 0 \<le> CURRENT_COMMENT_LENGTH g \<longrightarrow>
            (\<forall>k. int (total_length (take k entries)) \<le> COMMENT_MAX_SIZE u))
       \<and> (\<forall>xs ys s1. tool_output = xs @ ys
             \<and> for_loop u prefix fc oc xs (init_state g) = Inr (Return, s1)
             \<longrightarrow> entries = list_of_issues s1
                 \<and> CURRENT_COMMENT_LENGTH g' = COMMENT_MAX_SIZE u)"
proof -
  from run obtain c s where loop: "for_loop u prefix fc oc tool_output (init_state g) = Inr (c, s)"
    and g': "g' = globals_of s"
    and entries: "entries = (if c = Return then list_of_issues s else flush s)"
    by (rule returned_issues_run)
  have init: "comment_length (init_state g) \<le> COMMENT_MAX_SIZE u"
    using start by simp
  have mono: "CURRENT_COMMENT_LENGTH g \<le> CURRENT_COMMENT_LENGTH g'"
    using for_loop_counter [OF init loop] g' by simp
  have steps: "comment_length s1 \<le> comment_length s2"
    if "for_loop u prefix fc oc xs (init_state g) = Inr (c1, s1)"
      and "for_loop u prefix fc oc (xs @ ys) (init_state g) = Inr (c2, s2)"
    for xs ys c1 s1 c2 s2
  proof (cases c1)
    case Return
    then show ?thesis using that by (simp add: for_loop_append)
  next
    case Continue
    then have rest: "for_loop u prefix fc oc ys s1 = Inr (c2, s2)"
      using that by (simp add: for_loop_append)
    have "comment_length s1 \<le> COMMENT_MAX_SIZE u"
      using for_loop_counter [OF init that(1)] by simp
    then show ?thesis
      using for_loop_counter [OF _ rest] by simp
  qed
  have law: "int (total_length (take k entries)) \<le> COMMENT_MAX_SIZE u"
    if "\<not> oc" "never_lengthens u" "0 \<le> CURRENT_COMMENT_LENGTH g" for k
  proof -
    have wb0: "within_budget u (CURRENT_COMMENT_LENGTH g) (init_state g)"
      using start by (simp add: within_budget_def total_length_def)
    have loop': "for_loop u prefix fc False tool_output (init_state g) = Inr (c, s)"
      using loop that(1) by simp
    have wb: "within_budget u (CURRENT_COMMENT_LENGTH g) s"
      using that(2) wb0 loop' by (rule for_loop_within_budget)
    have "total_length entries \<le> total_length (list_of_issues s) + length (per_issue_string s)"
      using entries by (auto simp: flush_def total_length_def)
    then have "int (total_length entries) \<le> COMMENT_MAX_SIZE u"
      using wb that(3) by (simp add: within_budget_def)
    then show ?thesis
      using total_length_take [of k entries] by linarith
  qed
  have stop: "entries = list_of_issues s1 \<and> CURRENT_COMMENT_LENGTH g' = COMMENT_MAX_SIZE u"
    if "tool_output = xs @ ys" "for_loop u prefix fc oc xs (init_state g) = Inr (Return, s1)"
    for xs ys s1
  proof -
    have "c = Return" "s = s1"
      using loop that by (simp_all add: for_loop_append)
    then show ?thesis
      using entries g' for_loop_return [OF that(2)] by simp
  qed
  show ?thesis
    using mono steps law stop by blast
qed

theorem budget_law_witness:
  "returned_issues example_utils
     [''/w/a.cc:1:2: error: x\<newline>'', ''/w/a.cc:3:2: error: y\<newline>'', ''/w/a.cc:5:2: error: z\<newline>'',
      ''/w/a.cc:7:2: error: v\<newline>'']
     ''/w'' example_changes False fresh_globals
     = Inr ([''\<newline>\<newline>https://github.com/r/blob/s/a.cc#L1-L1 error: x\<newline> <br>\<newline>''],
            \<lparr>CURRENT_COMMENT_LENGTH = 150, FILES_WITH_ISSUES = (\<lambda>_. None)\<rparr>)
   \<and> int (total_length
         (take 1 [''\<newline>\<newline>https://github.com/r/blob/s/a.cc#L1-L1 error: x\<newline> <br>\<newline>'']))
       \<le> COMMENT_MAX_SIZE example_utils
   \<and> (56::int) \<le> 112"
proof -
  let ?l1 = "''/w/a.cc:1:2: error: x\<newline>''" and ?l2 = "''/w/a.cc:3:2: error: y\<newline>''"
  let ?l3 = "''/w/a.cc:5:2: error: z\<newline>''" and ?l4 = "''/w/a.cc:7:2: error: v\<newline>''"
  let ?e1 = "''\<newline>\<newline>https://github.com/r/blob/s/a.cc#L1-L1 error: x\<newline> <br>\<newline>''"
  let ?e2 = "''\<newline>\<newline>https://github.com/r/blob/s/a.cc#L3-L3 error: y\<newline> <br>\<newline>''"
  let ?g = "\<lparr>CURRENT_COMMENT_LENGTH = 150, FILES_WITH_ISSUES = (\<lambda>_. None)\<rparr>"
  let ?s1 = "\<lparr>list_of_issues = [], per_issue_string = ?e1, was_note = False,
               comment_length = 56, files_with_issues = (\<lambda>_. None)\<rparr>"
  let ?s2 = "\<lparr>list_of_issues = [?e1], per_issue_string = ?e2, was_note = False,
               comment_length = 112, files_with_issues = (\<lambda>_. None)\<rparr>"
  let ?s3 = "\<lparr>list_of_issues = [?e1], per_issue_string = ?e2, was_note = False,
               comment_length = 150, files_with_issues = (\<lambda>_. None)\<rparr>"
  have start: "CURRENT_COMMENT_LENGTH fresh_globals \<le> COMMENT_MAX_SIZE example_utils"
    by (simp add: fresh_globals_def example_utils_def)
  have run: "returned_issues example_utils [?l1, ?l2, ?l3, ?l4] ''/w'' example_changes False
               fresh_globals = Inr ([?e1], ?g)"
    by (simp add: ev)
  have nl: "never_lengthens example_utils"
    by (simp add: never_lengthens_def example_utils_def generate_description_spec_def)
  have r1: "for_loop example_utils ''/w'' example_changes False [?l1] (init_state fresh_globals)
              = Inr (Continue, ?s1)"
    by (simp add: ev)
  have r2: "for_loop example_utils ''/w'' example_changes False ([?l1] @ [?l2])
              (init_state fresh_globals) = Inr (Continue, ?s2)"
    by (simp add: ev)
  have r3: "for_loop example_utils ''/w'' example_changes False [?l1, ?l2, ?l3]
              (init_state fresh_globals) = Inr (Return, ?s3)"
    by (simp add: ev)
  note law = budget_law [OF start run]
  from law have "\<not> False \<and> never_lengthens example_utils \<and> 0 \<le> CURRENT_COMMENT_LENGTH fresh_globals
      \<longrightarrow> (\<forall>k. int (total_length (take k [?e1])) \<le> COMMENT_MAX_SIZE example_utils)"
    by blast
  then have "\<forall>k. int (total_length (take k [?e1])) \<le> COMMENT_MAX_SIZE example_utils"
    using nl by (simp add: fresh_globals_def)
  then have a: "int (total_length (take 1 [?e1])) \<le> COMMENT_MAX_SIZE example_utils"
    by (rule spec)
  from law have "\<forall>xs ys zs c1 s1 c2 s2. [?l1, ?l2, ?l3, ?l4] = xs @ ys @ zs
             \<and> for_loop example_utils ''/w'' example_changes False xs (init_state fresh_globals)
                 = Inr (c1, s1)
             \<and> for_loop example_utils ''/w'' example_changes False (xs @ ys)
                  (init_state fresh_globals) = Inr (c2, s2)
             \<longrightarrow> comment_length s1 \<le> comment_length s2"
    by blast
  from this [rule_format, of "[?l1]" "[?l2]" "[?l3, ?l4]" Continue ?s1 Continue ?s2] r1 r2
  have b: "(56::int) \<le> 112"
    by simp
  show ?thesis
    using run a b by blast
qed

text \<open>
  The claim as stated, for every run, fails in console mode, where the loop goes to the
  next line before the budget check: two lines of 22 characters are both returned
  although the maximum is 40.
\<close>

theorem console_budget_counterexample:
  "returned_issues tiny_utils [''/w/a.cc:1:2: error: x\<newline>'', ''/w/a.cc:3:2: error: y\<newline>''] ''/w''
     example_changes True fresh_globals
     = Inr ([''/w/a.cc:1:2: error: x\<newline>'', ''/w/a.cc:3:2: error: y\<newline>''], fresh_globals)
   \<and> COMMENT_MAX_SIZE tiny_utils
       < int (total_length [''/w/a.cc:1:2: error: x\<newline>'', ''/w/a.cc:3:2: error: y\<newline>''])"
  by (simp add: ev tiny_utils_def total_length_def)

section \<open>The prefix in \<^verbatim>\<open>extract_info\<close>\<close>

text \<open>
  Claim C8. The claim, like the docstring of \<^verbatim>\<open>extract_info\<close> ("the prefix to remove
  from the start of the file path in the line"), has the prefix removed at the start of
  the line only. The code calls \<^verbatim>\<open>line.replace(prefix, "")\<close>, which removes the prefix
  wherever it occurs: on a line whose description names a second path under the prefix,
  the description that is returned has lost the prefix too.
\<close>

theorem prefix_removed_everywhere:
  "extract_info example_utils ''/w/a.cc:1:2: error: see /w/b.h\<newline>'' ''/w''
     = Inr (''a.cc'', False, 1, 1, ''error: see /b.h\<newline>'')"
  by (simp add: ev)

section \<open>Running the aggregation twice\<close>

text \<open>
  Claim C9, as amended. Let a run of \<^verbatim>\<open>create_comment_for_output\<close> return. Then a run
  on the same stream with the same changed-files mapping returns the same text and the
  same count whenever it starts with the same value of the character counter and with
  a cache under which every path shows the same lines; in particular the run can be
  repeated after the first one, with the cache that the first run filled, once the
  counter is put back to its first value.
\<close>

theorem rerun_gives_same_output:
  assumes run: "create_comment_for_output u tool_output prefix fc oc g = Inr (out, g1)"
  shows "(\<forall>g2. CURRENT_COMMENT_LENGTH g2 = CURRENT_COMMENT_LENGTH g
              \<and> file_view u (FILES_WITH_ISSUES g2) = file_view u (FILES_WITH_ISSUES g)
            \<longrightarrow> (\<exists>g3. create_comment_for_output u tool_output prefix fc oc g2 = Inr (out, g3)))
       \<and> (\<exists>g3. create_comment_for_output u tool_output prefix fc oc
                  (g1\<lparr>CURRENT_COMMENT_LENGTH := CURRENT_COMMENT_LENGTH g\<rparr>) = Inr (out, g3))"
proof -
  obtain joined n where out: "out = (joined, n)"
    by (cases out)
  from run obtain entries where r: "returned_issues u tool_output prefix fc oc g = Inr (entries, g1)"
    and joined: "joined = join ''\<newline>'' entries" and n: "n = int (length entries)"
    unfolding out by (auto simp: create_comment_returned)
  have same: "\<exists>g3. create_comment_for_output u tool_output prefix fc oc g2 = Inr (out, g3)"
    if "CURRENT_COMMENT_LENGTH g2 = CURRENT_COMMENT_LENGTH g"
      and "file_view u (FILES_WITH_ISSUES g2) = file_view u (FILES_WITH_ISSUES g)"
    for g2
  proof -
    from returned_issues_same_view [OF r that]
    obtain g3 where "returned_issues u tool_output prefix fc oc g2 = Inr (entries, g3)"
      by blast
    then have "create_comment_for_output u tool_output prefix fc oc g2 = Inr (out, g3)"
      using out joined n by (simp add: create_comment_for_output_def)
    then show ?thesis ..
  qed
  from r obtain c s where loop: "for_loop u prefix fc oc tool_output (init_state g) = Inr (c, s)"
    and g1: "g1 = globals_of s"
    by (rule returned_issues_run)
  have "file_view u (FILES_WITH_ISSUES g1) = file_view u (FILES_WITH_ISSUES g)"
    using for_loop_view [OF loop] g1 by simp
  then have "\<exists>g3. create_comment_for_output u tool_output prefix fc oc
                  (g1\<lparr>CURRENT_COMMENT_LENGTH := CURRENT_COMMENT_LENGTH g\<rparr>) = Inr (out, g3)"
    by (intro same) simp_all
  then show ?thesis
    using same by blast
qed

theorem rerun_gives_same_output_witness:
  "create_comment_for_output fork_utils [''/w/a.cc:1:2: error: x\<newline>''] ''/w'' example_changes False
     fresh_globals
     = Inr ((''\<newline>\<newline>------\<newline>\<newline> <b><i>Issue found in file</b></i> [f/a.cc](https://github.com/f/blob/s/a.cc#L1)\<newline>```cpp\<newline>int f( <---- HERE\<newline>\<newline>``` \<newline>error: x\<newline> <br>\<newline>'', 1),
            \<lparr>CURRENT_COMMENT_LENGTH = 137,
             FILES_WITH_ISSUES = [''a.cc'' \<mapsto> [''int f(\<newline>'', ''  int x);\<newline>'', ''int y;\<newline>'']]\<rparr>)
   \<and> (\<exists>g3. create_comment_for_output fork_utils [''/w/a.cc:1:2: error: x\<newline>''] ''/w''
              example_changes False
              \<lparr>CURRENT_COMMENT_LENGTH = 0,
               FILES_WITH_ISSUES = [''a.cc'' \<mapsto> [''int f(\<newline>'', ''  int x);\<newline>'', ''int y;\<newline>'']]\<rparr>
         = Inr ((''\<newline>\<newline>------\<newline>\<newline> <b><i>Issue found in file</b></i> [f/a.cc](https://github.com/f/blob/s/a.cc#L1)\<newline>```cpp\<newline>int f( <---- HERE\<newline>\<newline>``` \<newline>error: x\<newline> <br>\<newline>'', 1),
                g3))"
proof -
  have run: "create_comment_for_output fork_utils [''/w/a.cc:1:2: error: x\<newline>''] ''/w''
       example_changes False fresh_globals
     = Inr ((''\<newline>\<newline>------\<newline>\<newline> <b><i>Issue found in file</b></i> [f/a.cc](https://github.com/f/blob/s/a.cc#L1)\<newline>```cpp\<newline>int f( <---- HERE\<newline>\<newline>``` \<newline>error: x\<newline> <br>\<newline>'', 1),
            \<lparr>CURRENT_COMMENT_LENGTH = 137,
             FILES_WITH_ISSUES = [''a.cc'' \<mapsto> [''int f(\<newline>'', ''  int x);\<newline>'', ''int y;\<newline>'']]\<rparr>)"
    by (simp add: ev fork_utils_def)
  from rerun_gives_same_output [OF run] show ?thesis
    using run by (simp add: fresh_globals_def)
qed

text \<open>
  The claim as stated fails for two runs of one process, such as the two calls in
  \<^verbatim>\<open>read_files_and_parse_results\<close>: the second run starts with the counter that the
  first one left. With room for 150 characters a stream of two issues gives two entries
  in the first run and none in the second.
\<close>

theorem second_run_differs_counterexample:
  "create_comment_for_output example_utils
     [''/w/a.cc:1:2: error: x\<newline>'', ''/w/a.cc:3:2: error: y\<newline>''] ''/w'' example_changes False
     fresh_globals
     = Inr ((''\<newline>\<newline>https://github.com/r/blob/s/a.cc#L1-L1 error: x\<newline> <br>\<newline>\<newline>\<newline>\<newline>https://github.com/r/blob/s/a.cc#L3-L3 error: y\<newline> <br>\<newline>'', 2),
            \<lparr>CURRENT_COMMENT_LENGTH = 112, FILES_WITH_ISSUES = (\<lambda>_. None)\<rparr>)
   \<and> create_comment_for_output example_utils
     [''/w/a.cc:1:2: error: x\<newline>'', ''/w/a.cc:3:2: error: y\<newline>''] ''/w'' example_changes False
     \<lparr>CURRENT_COMMENT_LENGTH = 112, FILES_WITH_ISSUES = (\<lambda>_. None)\<rparr>
     = Inr (('''', 0), \<lparr>CURRENT_COMMENT_LENGTH = 150, FILES_WITH_ISSUES = (\<lambda>_. None)\<rparr>)"
  by (simp add: ev)

section \<open>Duplicates and the counter\<close>

text \<open>
  Claim C10. In comment mode, when a line is rendered and the rendered line passes the
  budget check, the iteration adds the length of the rendered line to the counter,
  whatever the list of finalized entries holds, and so whether or not the entry that
  the line belongs to is dropped as a duplicate later. Over a whole run of the loop the
  counter at the end does not depend on the list of finalized entries at the start. So
  an entry that is dropped as a duplicate has used up budget.
\<close>

theorem rendered_line_always_counted:
  assumes matches: "startswith line prefix" "\<not> is_excluded_dir u line"
      and parsed: "extract_info u line prefix = Inr (file_path, is_note, ls, le, idesc)"
      and in_pr: "is_part_of_pr_changes u file_path ls fc"
      and described: "generate_description u is_note (was_note s) ls idesc (per_issue_string s)
                        = (p1, description)"
      and rendered: "generate_output u (files_with_issues s) is_note file_path ls le description
                       = Inr (new_line, files1)"
      and passes: "check_for_char_limit u (comment_length s) new_line"
  shows "(\<forall>l. \<exists>s'. loop_body u prefix fc False line (s\<lparr>list_of_issues := l\<rparr>) = Inr (Continue, s')
               \<and> comment_length s' = comment_length s + int (length new_line))
       \<and> (\<forall>lines c s2 l. for_loop u prefix fc False lines s = Inr (c, s2) \<longrightarrow>
             (\<exists>s3. for_loop u prefix fc False lines (s\<lparr>list_of_issues := l\<rparr>) = Inr (c, s3)
                   \<and> comment_length s3 = comment_length s2))"
proof (intro conjI allI impI)
  fix l
  show "\<exists>s'. loop_body u prefix fc False line (s\<lparr>list_of_issues := l\<rparr>) = Inr (Continue, s')
               \<and> comment_length s' = comment_length s + int (length new_line)"
    using assms by (cases "append_issue is_note p1 new_line l") (simp add: loop_body_def)
next
  fix lines c s2 l
  assume "for_loop u prefix fc False lines s = Inr (c, s2)"
  from for_loop_list_independent [OF this, of l]
  show "\<exists>s3. for_loop u prefix fc False lines (s\<lparr>list_of_issues := l\<rparr>) = Inr (c, s3)
                   \<and> comment_length s3 = comment_length s2"
    by auto
qed

theorem rendered_line_always_counted_witness:
  "returned_issues example_utils [''/w/a.cc:1:2: error: x\<newline>'', ''/w/a.cc:1:2: error: x\<newline>''] ''/w''
     example_changes False fresh_globals
     = Inr ([''\<newline>\<newline>https://github.com/r/blob/s/a.cc#L1-L1 error: x\<newline> <br>\<newline>''],
            \<lparr>CURRENT_COMMENT_LENGTH = 112, FILES_WITH_ISSUES = (\<lambda>_. None)\<rparr>)
   \<and> total_length [''\<newline>\<newline>https://github.com/r/blob/s/a.cc#L1-L1 error: x\<newline> <br>\<newline>''] = 56
   \<and> (\<exists>s'. loop_body example_utils ''/w'' example_changes False ''/w/a.cc:1:2: error: x\<newline>''
              \<lparr>list_of_issues =
                 [''\<newline>\<newline>https://github.com/r/blob/s/a.cc#L1-L1 error: x\<newline> <br>\<newline>''],
               per_issue_string =
                 ''\<newline>\<newline>https://github.com/r/blob/s/a.cc#L1-L1 error: x\<newline> <br>\<newline>'',
               was_note = False, comment_length = 56, files_with_issues = (\<lambda>_. None)\<rparr>
              = Inr (Continue, s')
            \<and> comment_length s' = 56 + 56)"
proof -
  let ?l1 = "''/w/a.cc:1:2: error: x\<newline>''"
  let ?e1 = "''\<newline>\<newline>https://github.com/r/blob/s/a.cc#L1-L1 error: x\<newline> <br>\<newline>''"
  let ?s1 = "\<lparr>list_of_issues = [], per_issue_string = ?e1, was_note = False,
               comment_length = 56, files_with_issues = (\<lambda>_. None)\<rparr>"
  have run: "returned_issues example_utils [?l1, ?l1] ''/w'' example_changes False fresh_globals
     = Inr ([?e1], \<lparr>CURRENT_COMMENT_LENGTH = 112, FILES_WITH_ISSUES = (\<lambda>_. None)\<rparr>)"
    by (simp add: ev)
  have len: "total_length [?e1] = 56"
    by (simp add: total_length_def)
  have h1: "startswith ?l1 ''/w''"
    by (simp add: startswith_def)
  have h2: "\<not> is_excluded_dir example_utils ?l1"
    by (simp add: example_utils_def)
  have h3: "extract_info example_utils ?l1 ''/w'' = Inr (''a.cc'', False, 1, 1, ''error: x\<newline>'')"
    by (simp add: ev)
  have h4: "is_part_of_pr_changes example_utils ''a.cc'' 1 example_changes"
    by (simp add: ev)
  have h5: "generate_description example_utils False (was_note ?s1) 1 ''error: x\<newline>''
              (per_issue_string ?s1) = (?e1, ''error: x\<newline>'')"
    by (simp add: ev)
  have h6: "generate_output example_utils (files_with_issues ?s1) False ''a.cc'' 1 1
              ''error: x\<newline>'' = Inr (?e1, (\<lambda>_. None))"
    by (simp add: ev)
  have h7: "check_for_char_limit example_utils (comment_length ?s1) ?e1"
    by (simp add: ev)
  from rendered_line_always_counted [OF h1 h2 h3 h4 h5 h6 h7]
  have "\<forall>l. \<exists>s'. loop_body example_utils ''/w'' example_changes False ?l1
                   (?s1\<lparr>list_of_issues := l\<rparr>) = Inr (Continue, s')
               \<and> comment_length s' = comment_length ?s1 + int (length ?e1)"
    by blast
  from this [rule_format, of "[?e1]"]
  have step: "\<exists>s'. loop_body example_utils ''/w'' example_changes False ?l1
              \<lparr>list_of_issues = [?e1], per_issue_string = ?e1,
               was_note = False, comment_length = 56, files_with_issues = (\<lambda>_. None)\<rparr>
              = Inr (Continue, s')
            \<and> comment_length s' = 56 + 56"
    by simp
  show ?thesis
    using run len step by blast
qed

end
